theory Spec2Isabelle
  imports Complex_Main
begin

section \<open>Exceptions\<close>

text \<open>
  The Python exceptions that the modelled code can meet. \<open>KeyboardInterrupt\<close> is the
  only one that \<open>simulate\<close> handles; \<open>DeviceError\<close> stands for whatever the motor
  driver raises on a failed call; \<open>IndexError\<close> and \<open>ValueError\<close> are raised by NumPy
  indexing and shape checks. \<open>NonFinite\<close> marks a division by a zero time step: the
  floating-point run continues there with \<open>inf\<close> or \<open>nan\<close>, values that the real
  numbers of this model do not have, so the model stops with this marker instead.
\<close>

datatype exn = KeyboardInterrupt | DeviceError | IndexError | ValueError | NonFinite

section \<open>The recorded arrays\<close>

text \<open>
  \<open>pd_regulator\<close> appends the row \<open>[q, dq, current, u]\<close> to \<open>self.state\<close>.
  Floating-point numbers are modelled by exact reals.
\<close>

type_synonym sample = "real \<times> real \<times> real \<times> real"

fun col0 :: "sample \<Rightarrow> real" where "col0 (q, dq, i, u) = q"
fun col1 :: "sample \<Rightarrow> real" where "col1 (q, dq, i, u) = dq"
fun col2 :: "sample \<Rightarrow> real" where "col2 (q, dq, i, u) = i"
fun col3 :: "sample \<Rightarrow> real" where "col3 (q, dq, i, u) = u"

section \<open>The NumPy operations of \<open>get_params\<close>\<close>

text \<open>\<open>np.diff\<close> on a one-dimensional array: the differences of neighbours.\<close>

fun np_diff :: "real list \<Rightarrow> real list" where
  "np_diff (x # y # xs) = (y - x) # np_diff (y # xs)"
| "np_diff _ = []"

text \<open>
  Elementwise division of two one-dimensional arrays. Shapes \<open>(a,)\<close> and \<open>(b,)\<close>
  broadcast when \<open>a = b\<close> or one of them is 1; otherwise NumPy raises ValueError.
\<close>

definition broadcast :: "real list \<Rightarrow> real list \<Rightarrow> exn + (real \<times> real) list" where
  "broadcast xs ys =
     (if length xs = length ys then Inr (zip xs ys)
      else if length xs = 1 then Inr (map (\<lambda>y. (hd xs, y)) ys)
      else if length ys = 1 then Inr (map (\<lambda>x. (x, hd ys)) xs)
      else Inl ValueError)"

definition np_divide :: "real list \<Rightarrow> real list \<Rightarrow> exn + real list" where
  "np_divide xs ys =
     (case broadcast xs ys of
        Inl e \<Rightarrow> Inl e
      | Inr ps \<Rightarrow>
          if 0 \<in> set (map snd ps) then Inl NonFinite
          else Inr (map (\<lambda>p. fst p / snd p) ps))"

definition dot :: "real list \<Rightarrow> real list \<Rightarrow> real" where
  "dot xs ys = sum_list (map (\<lambda>p. fst p * snd p) (zip xs ys))"

text \<open>
  \<open>np.linalg.pinv\<close> is NumPy's, not this repository's. It computes a singular value
  decomposition, sets to zero every singular value that is at most \<open>rcond\<close> times the
  largest one (\<open>rcond\<close> is \<open>1e-15\<close> when the caller gives none, as here), inverts the
  others and multiplies back. The model does this in exact arithmetic for the matrix \<open>S\<close>
  with the two rows \<open>xs\<close> and \<open>ys\<close> (the shape \<open>get_params\<close> builds with
  \<open>np.asarray([dq, ddq])\<close>); the result has one row \<open>(p, q)\<close> per column of \<open>S\<close>.
  The squares of the two singular values are the eigenvalues \<open>l1 \<ge> l2\<close> of the Gram
  matrix \<open>G = S S\<^sup>T\<close>, with trace \<open>tr\<close> and determinant \<open>d\<close>.
  \<^item> No singular value is kept (\<open>S\<close> is zero or empty): the result is zero.
  \<^item> Both are kept: the result is \<open>S\<^sup>T G\<^sup>-\<^sup>1\<close>.
  \<^item> Only the larger is kept: the result is \<open>S\<^sup>T P / l1\<close>, where
    \<open>P = (G - l2 I) / (l1 - l2)\<close> projects on the eigenvector of \<open>l1\<close>.
  The rounding of the floating-point decomposition is not modelled.
\<close>

definition rcond :: real where
  "rcond = 1 / 10 ^ 15"

definition pinv :: "real list \<Rightarrow> real list \<Rightarrow> (real \<times> real) list" where
  "pinv xs ys =
     (let a = dot xs xs; b = dot xs ys; c = dot ys ys;
          tr = a + c; d = a * c - b * b;
          l1 = (tr + sqrt (tr\<^sup>2 - 4 * d)) / 2;
          l2 = (tr - sqrt (tr\<^sup>2 - 4 * d)) / 2
      in if l1 = 0 then map (\<lambda>p. (0, 0)) (zip xs ys)
         else if rcond\<^sup>2 * l1 < l2 then
           map (\<lambda>p. ((c * fst p - b * snd p) / d, (a * snd p - b * fst p) / d)) (zip xs ys)
         else
           map (\<lambda>p. (((a - l2) * fst p + b * snd p) / (l1 * (l1 - l2)),
                      (b * fst p + (c - l2) * snd p) / (l1 * (l1 - l2)))) (zip xs ys))"

text \<open>The product of a row vector with a matrix of two columns: \<open>I.T @ P\<close>.\<close>

definition row_matmul :: "real list \<Rightarrow> (real \<times> real) list \<Rightarrow> real \<times> real" where
  "row_matmul v P = (dot v (map fst P), dot v (map snd P))"

section \<open>\<open>Model.get_params\<close>\<close>

text \<open>
  \<open>get_params\<close> reads \<open>self.time\<close> and \<open>self.state\<close> and nothing else of the object;
  they are its two arguments here. An empty \<open>self.state\<close> becomes a one-dimensional
  array, on which \<open>state[:, 0]\<close> raises IndexError. Rows of different lengths in
  \<open>np.asarray([dq, ddq])\<close> raise ValueError. The result is
  \<open>(params[0, 0], params[0, 1])\<close>.
\<close>

definition get_params :: "real list \<Rightarrow> sample list \<Rightarrow> exn + real \<times> real" where
  "get_params time state =
     (if state = [] then Inl IndexError
      else
        let dq = map col1 state; I = map col2 state in
        case np_divide (np_diff dq) (np_diff time) of
          Inl e \<Rightarrow> Inl e
        | Inr ddq \<Rightarrow>
            let dq' = tl dq; I' = tl I in
            if length dq' \<noteq> length ddq then Inl ValueError
            else Inr (row_matmul I' (pinv dq' ddq)))"

section \<open>Least squares, in the words of the specification\<close>

text \<open>
  The squared residual of the coefficients \<open>p\<close> for the rows \<open>(x, y)\<close> and the targets
  \<open>z\<close>; a least-squares solution minimises it, and the minimum-norm one is the shortest
  among these. \<open>forward_differences\<close> is the specification's formula for the acceleration.
\<close>

definition residual :: "real \<times> real \<Rightarrow> real list \<Rightarrow> real list \<Rightarrow> real list \<Rightarrow> real" where
  "residual p xs ys zs =
     sum_list (map (\<lambda>r. (fst p * fst r + snd p * fst (snd r) - snd (snd r))\<^sup>2) (zip xs (zip ys zs)))"

definition least_squares :: "real \<times> real \<Rightarrow> real list \<Rightarrow> real list \<Rightarrow> real list \<Rightarrow> bool" where
  "least_squares p xs ys zs = (\<forall>q. residual p xs ys zs \<le> residual q xs ys zs)"

definition min_norm_least_squares ::
  "real \<times> real \<Rightarrow> real list \<Rightarrow> real list \<Rightarrow> real list \<Rightarrow> bool" where
  "min_norm_least_squares p xs ys zs =
     (least_squares p xs ys zs \<and>
      (\<forall>q. least_squares q xs ys zs \<longrightarrow> (fst p)\<^sup>2 + (snd p)\<^sup>2 \<le> (fst q)\<^sup>2 + (snd q)\<^sup>2))"

definition forward_differences :: "real list \<Rightarrow> real list \<Rightarrow> real list" where
  "forward_differences t dq =
     map (\<lambda>i. (dq ! (i + 1) - dq ! i) / (t ! (i + 1) - t ! i)) [0 ..< length dq - 1]"

text \<open>
  The data for which \<open>pinv\<close> cuts a singular value that is not zero: the determinant of
  the Gram matrix of the two rows is positive, and so small against its trace that the
  ratio of the singular values is at most \<open>rcond\<close>.
\<close>

definition cut_off :: "real list \<Rightarrow> real list \<Rightarrow> bool" where
  "cut_off xs ys =
     (let a = dot xs xs; b = dot xs ys; c = dot ys ys; d = a * c - b * b in
      0 < d \<and> d * (1 + rcond\<^sup>2)\<^sup>2 \<le> rcond\<^sup>2 * (a + c)\<^sup>2)"

section \<open>The motor driver\<close>

text \<open>
  The driver class \<open>GyemsDRC\<close> belongs to a library outside this repository, so it is a
  parameter of the model: a record of its methods over a device state \<open>'d\<close> of its own.
  A method returns the exception it raises, if any, and the device state it leaves.
  \<open>drv_state\<close> is the dictionary \<open>device.state\<close>, read at the keys \<open>angle\<close>,
  \<open>speed\<close> and \<open>current\<close>. \<open>drv_current_limit\<close> is the assignment to the property
  \<open>device.current_limit\<close>.
\<close>

record 'd GyemsDRC =
  drv_set_degrees :: "'d \<Rightarrow> exn option \<times> 'd"
  drv_current_limit :: "real \<Rightarrow> 'd \<Rightarrow> exn option \<times> 'd"
  drv_enable :: "'d \<Rightarrow> exn option \<times> 'd"
  drv_disable :: "'d \<Rightarrow> exn option \<times> 'd"
  drv_set_current :: "real \<Rightarrow> 'd \<Rightarrow> exn option \<times> 'd"
  drv_state :: "'d \<Rightarrow> real \<times> real \<times> real"

datatype call = SetDegrees | SetCurrentLimit real | Enable | Disable | SetCurrent real

section \<open>\<open>DeviceParams\<close> and \<open>Model\<close>\<close>

record DeviceParams =
  kp :: real
  kd :: real
  q_def :: real
  dq_def :: real
  current_limit :: real
  time_stop :: real

text \<open>
  The attributes of \<open>Model\<close>, and one field that the source does not have: \<open>calls\<close>,
  the driver methods invoked so far, in order, as a mock actuator would count them.
\<close>

record 'd Model =
  device :: 'd
  calls :: "call list"
  kp :: real
  kd :: real
  initial_velocity :: real
  q_def :: real
  time_stop :: real
  state :: "sample list"
  error :: "real list"
  time :: "real list"

text \<open>A call of a driver method: it is logged, and the device takes its new state.\<close>

definition invoke :: "call \<Rightarrow> ('d \<Rightarrow> exn option \<times> 'd) \<Rightarrow> 'd Model \<Rightarrow> exn option \<times> 'd Model" where
  "invoke c f m =
     (let r = f (device m) in (fst r, m\<lparr>device := snd r, calls := calls m @ [c]\<rparr>))"

text \<open>
  \<open>perf_counter()\<close>. The loop is busy and spends its time in the driver's bus traffic:
  the clock is a function of the number of driver calls that have returned, and the
  bookkeeping between two calls takes no time.
\<close>

definition perf_counter :: "(nat \<Rightarrow> real) \<Rightarrow> 'd Model \<Rightarrow> real" where
  "perf_counter clock m = clock (length (calls m))"

section \<open>\<open>Model.setup\<close> and \<open>Model.__init__\<close>\<close>

definition setup_model :: "'d GyemsDRC \<Rightarrow> real \<Rightarrow> 'd Model \<Rightarrow> exn option \<times> 'd Model" where
  "setup_model drv limit m =
     (case invoke SetDegrees (drv_set_degrees drv) m of
        (Some x, m1) \<Rightarrow> (Some x, m1)
      | (None, m1) \<Rightarrow>
          (case invoke (SetCurrentLimit limit) (drv_current_limit drv limit) m1 of
             (Some x, m2) \<Rightarrow> (Some x, m2)
           | (None, m2) \<Rightarrow> invoke Enable (drv_enable drv) m2))"

text \<open>
  \<open>setup_model\<close> is the method \<open>setup\<close>.
  The constructor copies the parameters and calls \<open>setup\<close>; an exception of \<open>setup\<close>
  leaves it. The three lists are created after \<open>setup\<close>; here they are empty from the
  start, which no call of \<open>setup\<close> can observe. The second argument is the device as
  the constructor receives it.
\<close>

definition init :: "'d GyemsDRC \<Rightarrow> DeviceParams \<Rightarrow> 'd \<Rightarrow> exn option \<times> 'd Model" where
  "init drv device_params d =
     setup_model drv (current_limit device_params)
       \<lparr>device = d, calls = [],
        kp = DeviceParams.kp device_params, kd = DeviceParams.kd device_params,
        initial_velocity = dq_def device_params, q_def = DeviceParams.q_def device_params,
        time_stop = DeviceParams.time_stop device_params,
        state = [], error = [], time = []\<rparr>"

section \<open>\<open>Model.pd_regulator\<close>\<close>

text \<open>
  Angle and speed are read before the command is sent, the current after it. The result
  is the raised exception or the pair \<open>(q_des - q, u)\<close>.
\<close>

definition pd_regulator :: "'d GyemsDRC \<Rightarrow> 'd Model \<Rightarrow> (exn + real \<times> real) \<times> 'd Model" where
  "pd_regulator drv m =
     (let q = fst (drv_state drv (device m));
          dq = fst (snd (drv_state drv (device m)));
          q_des = q_def m;
          dq_des = initial_velocity m;
          u = kp m * (q_des - q) + kd m * (dq_des - dq)
      in case invoke (SetCurrent u) (drv_set_current drv u) m of
           (Some x, m1) \<Rightarrow> (Inl x, m1)
         | (None, m1) \<Rightarrow>
             (Inr (q_des - q, u),
              m1\<lparr>state := state m1 @ [(q, dq, snd (snd (drv_state drv (device m1))), u)]\<rparr>))"

section \<open>\<open>Model.plot\<close>\<close>

text \<open>
  Of \<open>plot\<close> the model keeps what can raise: \<open>state[:, 0]\<close> on an empty recording
  (IndexError), Matplotlib's refusal to plot columns against a time axis of another
  length (ValueError), and the call of \<open>get_params\<close>. The figure and the printed lines
  are not modelled.
\<close>

definition plot :: "'d Model \<Rightarrow> exn option" where
  "plot m =
     (if state m = [] then Some IndexError
      else if length (time m) \<noteq> length (state m) then Some ValueError
      else case get_params (time m) (state m) of Inl x \<Rightarrow> Some x | Inr p \<Rightarrow> None)"

section \<open>\<open>Model.simulate\<close>\<close>

datatype outcome = Finished | Raised exn | OutOfFuel

text \<open>
  One pass through the body of the \<open>while\<close> loop: read the clock, run the regulator,
  append to \<open>error\<close> and \<open>time\<close>. The result is the exception that left the body, or
  the new value of the loop variable \<open>t\<close>.
\<close>

definition tick :: "'d GyemsDRC \<Rightarrow> (nat \<Rightarrow> real) \<Rightarrow> real \<Rightarrow> 'd Model \<Rightarrow> (exn + real) \<times> 'd Model" where
  "tick drv clock t0 m =
     (let t = perf_counter clock m - t0 in
      case pd_regulator drv m of
        (Inl x, m1) \<Rightarrow> (Inl x, m1)
      | (Inr r, m1) \<Rightarrow> (Inr t, m1\<lparr>error := error m1 @ [fst r], time := time m1 @ [t]\<rparr>))"

text \<open>
  The \<open>while\<close> loop, with fuel: the first argument bounds the number of passes, and
  \<open>OutOfFuel\<close> comes with the model as it is after that many completed passes.
\<close>

fun while_loop :: "nat \<Rightarrow> 'd GyemsDRC \<Rightarrow> (nat \<Rightarrow> real) \<Rightarrow> real \<Rightarrow> real \<Rightarrow> 'd Model \<Rightarrow> outcome \<times> 'd Model" where
  "while_loop 0 drv clock t0 t m = (if t < time_stop m then (OutOfFuel, m) else (Finished, m))"
| "while_loop (Suc n) drv clock t0 t m =
     (if t < time_stop m then
        (case tick drv clock t0 m of
           (Inl x, m1) \<Rightarrow> (Raised x, m1)
         | (Inr t', m1) \<Rightarrow> while_loop n drv clock t0 t' m1)
      else (Finished, m))"

text \<open>
  The handler of \<open>except KeyboardInterrupt\<close>. Its result is the exception that is
  pending when the \<open>finally\<close> block starts: none after a completed loop and after a
  handled interrupt, the handler's own if its zero command raises, and the loop's
  exception if it is not a KeyboardInterrupt.
\<close>

definition except_block :: "'d GyemsDRC \<Rightarrow> outcome \<Rightarrow> 'd Model \<Rightarrow> exn option \<times> 'd Model" where
  "except_block drv out m =
     (case out of
        Raised KeyboardInterrupt \<Rightarrow> invoke (SetCurrent 0) (drv_set_current drv 0) m
      | Raised x \<Rightarrow> (Some x, m)
      | _ \<Rightarrow> (None, m))"

text \<open>
  The \<open>finally\<close> block: zero command, \<open>disable\<close>, \<open>plot\<close>. An exception of one of the
  three leaves the block at once and replaces the pending one.
\<close>

definition finally_block :: "'d GyemsDRC \<Rightarrow> exn option \<Rightarrow> 'd Model \<Rightarrow> exn option \<times> 'd Model" where
  "finally_block drv pending m =
     (case invoke (SetCurrent 0) (drv_set_current drv 0) m of
        (Some x, m1) \<Rightarrow> (Some x, m1)
      | (None, m1) \<Rightarrow>
          (case invoke Disable (drv_disable drv) m1 of
             (Some x, m2) \<Rightarrow> (Some x, m2)
           | (None, m2) \<Rightarrow>
               (case plot m2 of Some x \<Rightarrow> (Some x, m2) | None \<Rightarrow> (pending, m2))))"

text \<open>
  \<open>simulate\<close>: \<open>None\<close> if the loop is still running when the fuel is used up, otherwise
  the exception that leaves \<open>simulate\<close> (or none) and the model it leaves behind.
\<close>

definition simulate :: "nat \<Rightarrow> 'd GyemsDRC \<Rightarrow> (nat \<Rightarrow> real) \<Rightarrow> 'd Model \<Rightarrow> (exn option \<times> 'd Model) option" where
  "simulate fuel drv clock m =
     (let t0 = perf_counter clock m in
      case while_loop fuel drv clock t0 0 m of
        (OutOfFuel, m1) \<Rightarrow> None
      | (out, m1) \<Rightarrow>
          (case except_block drv out m1 of
             (pending, m2) \<Rightarrow> Some (finally_block drv pending m2)))"

section \<open>A mock actuator\<close>

text \<open>
  A test double for the driver, used to run the model on concrete inputs. Its state is
  the number of calls it has received and the dictionary \<open>(angle, speed, current)\<close>. The
  script \<open>fails\<close> tells, for the number of earlier calls and the call, which exception
  the call raises. A current command that succeeds shows up as the measured current;
  the motor does not move.
\<close>

type_synonym mock_state = "nat \<times> real \<times> real \<times> real"

definition mock :: "(nat \<Rightarrow> call \<Rightarrow> exn option) \<Rightarrow> mock_state GyemsDRC" where
  "mock fails =
     \<lparr>drv_set_degrees = (\<lambda>d. (fails (fst d) SetDegrees, (Suc (fst d), snd d))),
      drv_current_limit = (\<lambda>l d. (fails (fst d) (SetCurrentLimit l), (Suc (fst d), snd d))),
      drv_enable = (\<lambda>d. (fails (fst d) Enable, (Suc (fst d), snd d))),
      drv_disable = (\<lambda>d. (fails (fst d) Disable, (Suc (fst d), snd d))),
      drv_set_current = (\<lambda>u d.
        (fails (fst d) (SetCurrent u),
         (Suc (fst d),
          if fails (fst d) (SetCurrent u) = None
          then (fst (snd d), fst (snd (snd d)), u) else snd d))),
      drv_state = snd\<rparr>"

definition reliable :: "nat \<Rightarrow> call \<Rightarrow> exn option" where
  "reliable n c = None"

text \<open>The parameters at the end of the source file.\<close>

definition dev_param :: DeviceParams where
  "dev_param = \<lparr>DeviceParams.kp = 3, kd = 3, q_def = 90, dq_def = 0, current_limit = 200, time_stop = 10\<rparr>"

text \<open>
  Two further scripts: a table of call numbers with the exception that the call raises;
  and every call from number \<open>k\<close> on raises \<open>x\<close>, as on a bus that has gone down.
\<close>

definition script :: "(nat \<times> exn) list \<Rightarrow> nat \<Rightarrow> call \<Rightarrow> exn option" where
  "script table n c = map_of table n"

definition raises_from :: "nat \<Rightarrow> exn \<Rightarrow> nat \<Rightarrow> call \<Rightarrow> exn option" where
  "raises_from k x n c = (if k \<le> n then Some x else None)"

text \<open>
  The object that the last lines of the source file construct, on the mock actuator at
  rest, with a script and a stopping time of choice.
\<close>

definition bench :: "(nat \<Rightarrow> call \<Rightarrow> exn option) \<Rightarrow> real \<Rightarrow> mock_state Model" where
  "bench fails stop =
     snd (init (mock fails) (dev_param\<lparr>DeviceParams.time_stop := stop\<rparr>) (0, 0, 0, 0))"

section \<open>The recorded arrays as one table\<close>

text \<open>
  The three lists have one entry per completed pass, and each recorded error is the
  target angle minus the recorded angle.
\<close>

definition aligned :: "'d Model \<Rightarrow> bool" where
  "aligned m =
     (length (time m) = length (error m) \<and> length (error m) = length (state m)
      \<and> error m = map (\<lambda>s. q_def m - col0 s) (state m))"

text \<open>What a mock actuator observes of a run: the exception that leaves it and the calls.\<close>

definition observed :: "(exn option \<times> 'd Model) option \<Rightarrow> (exn option \<times> call list) option" where
  "observed r = map_option (\<lambda>p. (fst p, calls (snd p))) r"

section \<open>Properties of the estimator\<close>

lemma dot_map: "dot (map f rs) (map g rs) = sum_list (map (\<lambda>r. f r * g r) rs)"
  by (induction rs) (simp_all add: dot_def)

lemma sum_lin:
  "sum_list (map (\<lambda>r. h r * (u * f r + v * g r)) rs) =
     u * sum_list (map (\<lambda>r. h r * f r) rs) + v * sum_list (map (\<lambda>r. h r * g r) rs)"
  for u v :: real
  by (induction rs) (simp_all add: algebra_simps)

lemma quad_form:
  "sum_list (map (\<lambda>r. (u * f r + v * g r)\<^sup>2) rs) =
     u\<^sup>2 * sum_list (map (\<lambda>r. f r * f r) rs)
     + 2 * u * v * sum_list (map (\<lambda>r. f r * g r) rs)
     + v\<^sup>2 * sum_list (map (\<lambda>r. g r * g r) rs)"
  for u v :: real
  by (induction rs) (simp_all add: algebra_simps power2_eq_square)

lemma squares_zero:
  assumes "sum_list (map (\<lambda>r. (u * f r + v * g r)\<^sup>2) rs) = 0"
  shows "u * sum_list (map (\<lambda>r. h r * f r) rs) + v * sum_list (map (\<lambda>r. h r * g r) rs) = (0::real)"
proof -
  have "\<forall>x \<in> set (map (\<lambda>r. (u * f r + v * g r)\<^sup>2) rs). x = 0"
    using assms by (subst (asm) sum_list_nonneg_eq_0_iff) auto
  then have z: "\<And>r. r \<in> set rs \<Longrightarrow> u * f r + v * g r = 0" by auto
  have "sum_list (map (\<lambda>r. h r * (u * f r + v * g r)) rs) = sum_list (map (\<lambda>r. 0) rs)"
    by (rule arg_cong [where f = sum_list], rule map_cong) (simp_all add: z)
  then show ?thesis by (simp add: sum_lin)
qed

lemma residual_expand:
  "sum_list (map (\<lambda>r. (u * f r + v * g r - h r)\<^sup>2) rs) =
     u\<^sup>2 * sum_list (map (\<lambda>r. f r * f r) rs)
     + 2 * u * v * sum_list (map (\<lambda>r. f r * g r) rs)
     + v\<^sup>2 * sum_list (map (\<lambda>r. g r * g r) rs)
     - 2 * u * sum_list (map (\<lambda>r. h r * f r) rs)
     - 2 * v * sum_list (map (\<lambda>r. h r * g r) rs)
     + sum_list (map (\<lambda>r. h r * h r) rs)"
  for u v :: real
  by (induction rs) (simp_all add: algebra_simps power2_eq_square)


lemma zip3_map: "zip (map f rs) (zip (map g rs) (map h rs)) = map (\<lambda>r. (f r, g r, h r)) rs"
  by (induction rs) simp_all

lemma zip2_map: "zip (map f rs) (map g rs) = map (\<lambda>r. (f r, g r)) rs"
  by (induction rs) simp_all

lemma residual_rows:
  "residual (u, v) (map f rs) (map g rs) (map h rs) =
     u\<^sup>2 * sum_list (map (\<lambda>r. f r * f r) rs)
     + 2 * u * v * sum_list (map (\<lambda>r. f r * g r) rs)
     + v\<^sup>2 * sum_list (map (\<lambda>r. g r * g r) rs)
     - 2 * u * sum_list (map (\<lambda>r. h r * f r) rs)
     - 2 * v * sum_list (map (\<lambda>r. h r * g r) rs)
     + sum_list (map (\<lambda>r. h r * h r) rs)"
  by (simp add: residual_def zip3_map comp_def residual_expand)

lemma sum_div:
  "sum_list (map (\<lambda>r. h r * ((u * f r + v * g r) / k)) rs) =
     (u * sum_list (map (\<lambda>r. h r * f r) rs) + v * sum_list (map (\<lambda>r. h r * g r) rs)) / k"
  for u v k :: real
  by (induction rs) (simp_all add: algebra_simps add_divide_distrib)

lemma gram_facts:
  fixes f g :: "'a \<Rightarrow> real" and rs :: "'a list"
  defines "a \<equiv> sum_list (map (\<lambda>r. f r * f r) rs)"
    and "b \<equiv> sum_list (map (\<lambda>r. f r * g r) rs)"
    and "c \<equiv> sum_list (map (\<lambda>r. g r * g r) rs)"
  shows "0 \<le> a" and "0 \<le> c" and "0 \<le> a * c - b * b" and "a = 0 \<Longrightarrow> b = 0"
proof -
  have Q: "sum_list (map (\<lambda>r. (u * f r + v * g r)\<^sup>2) rs) = u\<^sup>2 * a + 2 * u * v * b + v\<^sup>2 * c" for u v
    by (simp add: quad_form a_def b_def c_def)
  have Qpos: "0 \<le> u\<^sup>2 * a + 2 * u * v * b + v\<^sup>2 * c" for u v
    unfolding Q [symmetric] by (rule sum_list_nonneg) auto
  show a0: "0 \<le> a" using Qpos [of 1 0] by simp
  show "0 \<le> c" using Qpos [of 0 1] by simp
  show b0: "b = 0" if "a = 0"
  proof -
    from that have "sum_list (map (\<lambda>r. (1 * f r + 0 * g r)\<^sup>2) rs) = 0"
      unfolding Q by simp
    from squares_zero [OF this, of g] show ?thesis by (simp add: b_def mult.commute)
  qed
  show "0 \<le> a * c - b * b"
  proof (cases "a = 0")
    case True
    with b0 show ?thesis by simp
  next
    case False
    with a0 have "0 < a" by simp
    have "a * (a * c - b * b) = (- b)\<^sup>2 * a + 2 * (- b) * a * b + a\<^sup>2 * c"
      by (simp add: power2_eq_square algebra_simps)
    with Qpos [of "- b" a] have "0 \<le> a * (a * c - b * b)" by simp
    with \<open>0 < a\<close> show ?thesis by (simp add: zero_le_mult_iff)
  qed
qed

lemma eigen_test:
  fixes tr d k :: real
  assumes "0 \<le> tr" and "4 * d \<le> tr\<^sup>2" and "0 \<le> k" and "k < 1"
  shows "k * ((tr + sqrt (tr\<^sup>2 - 4 * d)) / 2) < (tr - sqrt (tr\<^sup>2 - 4 * d)) / 2
         \<longleftrightarrow> k * tr\<^sup>2 < d * (1 + k)\<^sup>2"
proof -
  define r where "r = sqrt (tr\<^sup>2 - 4 * d)"
  have r0: "0 \<le> r" using assms(2) by (simp add: r_def)
  have r2: "r\<^sup>2 = tr\<^sup>2 - 4 * d" using assms(2) by (simp add: r_def)
  have e: "k * ((tr + r) / 2) = (k * tr + k * r) / 2" "(1 + k) * r = r + k * r"
    "(1 - k) * tr = tr - k * tr"
    by (simp_all add: algebra_simps)
  have "(k * tr + k * r) / 2 < (tr - r) / 2 \<longleftrightarrow> r + k * r < tr - k * tr"
    by argo
  then have "k * ((tr + r) / 2) < (tr - r) / 2 \<longleftrightarrow> (1 + k) * r < (1 - k) * tr"
    by (simp only: e)
  also have "\<dots> \<longleftrightarrow> ((1 + k) * r)\<^sup>2 < ((1 - k) * tr)\<^sup>2"
  proof
    assume "(1 + k) * r < (1 - k) * tr"
    moreover have "0 \<le> (1 + k) * r" using r0 assms(3) by simp
    ultimately show "((1 + k) * r)\<^sup>2 < ((1 - k) * tr)\<^sup>2"
      by (intro power_strict_mono) simp_all
  next
    assume "((1 + k) * r)\<^sup>2 < ((1 - k) * tr)\<^sup>2"
    moreover have "0 \<le> (1 - k) * tr" using assms(1,4) by simp
    ultimately show "(1 + k) * r < (1 - k) * tr"
      by (rule power2_less_imp_less)
  qed
  also have "((1 + k) * r)\<^sup>2 = (1 + k)\<^sup>2 * (tr\<^sup>2 - 4 * d)"
    by (simp add: power_mult_distrib r2)
  also have "(1 + k)\<^sup>2 * (tr\<^sup>2 - 4 * d) < ((1 - k) * tr)\<^sup>2 \<longleftrightarrow> k * tr\<^sup>2 < d * (1 + k)\<^sup>2"
  proof -
    have "((1 - k) * tr)\<^sup>2 - (1 + k)\<^sup>2 * (tr\<^sup>2 - 4 * d) = 4 * (d * (1 + k)\<^sup>2 - k * tr\<^sup>2)"
      by (simp add: power2_eq_square algebra_simps)
    then show ?thesis by argo
  qed
  finally show ?thesis by (simp add: r_def)
qed

lemma rcond_bounds: "0 \<le> rcond\<^sup>2" "rcond\<^sup>2 < 1"
  by (simp_all add: rcond_def power2_eq_square)

text \<open>
  The tests of \<open>pinv\<close> without the square root: the larger eigenvalue is zero exactly when
  the trace is, and the smaller one is kept exactly when the determinant is large enough
  against the squared trace.
\<close>

lemma pinv_tests:
  fixes f g :: "'a \<Rightarrow> real" and rs :: "'a list"
  defines "a \<equiv> sum_list (map (\<lambda>r. f r * f r) rs)"
    and "b \<equiv> sum_list (map (\<lambda>r. f r * g r) rs)"
    and "c \<equiv> sum_list (map (\<lambda>r. g r * g r) rs)"
  defines "l1 \<equiv> (a + c + sqrt ((a + c)\<^sup>2 - 4 * (a * c - b * b))) / 2"
    and "l2 \<equiv> (a + c - sqrt ((a + c)\<^sup>2 - 4 * (a * c - b * b))) / 2"
  shows "pinv (map f rs) (map g rs) =
     (if a + c = 0 then map (\<lambda>r. (0, 0)) rs
      else if rcond\<^sup>2 * (a + c)\<^sup>2 < (a * c - b * b) * (1 + rcond\<^sup>2)\<^sup>2 then
        map (\<lambda>r. ((c * f r - b * g r) / (a * c - b * b), (a * g r - b * f r) / (a * c - b * b))) rs
      else
        map (\<lambda>r. (((a - l2) * f r + b * g r) / (l1 * (l1 - l2)),
                   (b * f r + (c - l2) * g r) / (l1 * (l1 - l2)))) rs)"
proof -
  define tr where "tr = a + c"
  define d where "d = a * c - b * b"
  have a0: "0 \<le> a" and c0: "0 \<le> c" and d0: "0 \<le> d"
    unfolding a_def b_def c_def d_def by (rule gram_facts(1-3))+
  have ab: "a = 0 \<Longrightarrow> b = 0"
    unfolding a_def b_def by (rule gram_facts(4))
  have tr0: "0 \<le> tr" using a0 c0 by (simp add: tr_def)
  have "tr\<^sup>2 - 4 * d = (a - c)\<^sup>2 + 4 * b\<^sup>2"
    by (simp add: tr_def d_def power2_eq_square algebra_simps)
  moreover have "0 \<le> (a - c)\<^sup>2 + 4 * b\<^sup>2" by simp
  ultimately have disc: "4 * d \<le> tr\<^sup>2" by linarith
  define root where "root = sqrt (tr\<^sup>2 - 4 * d)"
  have root0: "0 \<le> root" using disc by (simp add: root_def)
  have l1r: "l1 = (tr + root) / 2"
    unfolding l1_def root_def tr_def d_def ..
  have l1: "l1 = 0 \<longleftrightarrow> tr = 0"
  proof
    assume "l1 = 0"
    with l1r have "tr + root = 0" by simp
    with tr0 root0 show "tr = 0" by (simp add: add_nonneg_eq_0_iff)
  next
    assume t: "tr = 0"
    with a0 c0 have "a = 0" "c = 0" by (simp_all add: tr_def)
    with ab show "l1 = 0" by (simp add: l1_def)
  qed
  have test: "rcond\<^sup>2 * l1 < l2 \<longleftrightarrow> rcond\<^sup>2 * tr\<^sup>2 < d * (1 + rcond\<^sup>2)\<^sup>2"
    unfolding l1_def l2_def tr_def [symmetric] d_def [symmetric]
    by (rule eigen_test [OF tr0 disc rcond_bounds])
  have dots: "dot (map f rs) (map f rs) = a" "dot (map f rs) (map g rs) = b"
    "dot (map g rs) (map g rs) = c"
    by (simp_all add: dot_map a_def b_def c_def)
  have "pinv (map f rs) (map g rs) =
     (if l1 = 0 then map (\<lambda>r. (0, 0)) rs
      else if rcond\<^sup>2 * l1 < l2 then
        map (\<lambda>r. ((c * f r - b * g r) / (a * c - b * b), (a * g r - b * f r) / (a * c - b * b))) rs
      else
        map (\<lambda>r. (((a - l2) * f r + b * g r) / (l1 * (l1 - l2)),
                   (b * f r + (c - l2) * g r) / (l1 * (l1 - l2)))) rs)"
    unfolding pinv_def Let_def dots zip2_map l1_def l2_def
    by (simp only: list.map_comp comp_def fst_conv snd_conv)
  then show ?thesis
    by (simp only: l1 test tr_def d_def)
qed

lemma pinv_rows:
  fixes f g h :: "'a \<Rightarrow> real" and rs :: "'a list"
  defines "a \<equiv> sum_list (map (\<lambda>r. f r * f r) rs)"
    and "b \<equiv> sum_list (map (\<lambda>r. f r * g r) rs)"
    and "c \<equiv> sum_list (map (\<lambda>r. g r * g r) rs)"
    and "k \<equiv> sum_list (map (\<lambda>r. h r * f r) rs)"
    and "l \<equiv> sum_list (map (\<lambda>r. h r * g r) rs)"
  assumes nc: "\<not> cut_off (map f rs) (map g rs)"
  shows "row_matmul (map h rs) (pinv (map f rs) (map g rs)) =
     (if a * c - b * b \<noteq> 0 then ((c * k - b * l) / (a * c - b * b), (a * l - b * k) / (a * c - b * b))
      else if a + c \<noteq> 0 then (k / (a + c), l / (a + c))
      else (0, 0))"
proof -
  define d where "d = a * c - b * b"
  have a0: "0 \<le> a" and c0: "0 \<le> c" and d0: "0 \<le> d"
    unfolding a_def b_def c_def d_def by (rule gram_facts(1-3))+
  have ab: "a = 0 \<Longrightarrow> b = 0"
    unfolding a_def b_def by (rule gram_facts(4))
  have 1: "sum_list (map (\<lambda>r. h r * (c * f r - b * g r) / e) rs) = (c * k - b * l) / e" for e
    using sum_div [of h c f "- b" g e rs] by (simp add: k_def l_def)
  have 2: "sum_list (map (\<lambda>r. h r * (a * g r - b * f r) / e) rs) = (a * l - b * k) / e" for e
    using sum_div [of h "- b" f a g e rs] by (simp add: k_def l_def)
  have 3: "sum_list (map (\<lambda>r. h r * (u * f r + v * g r) / e) rs) = (u * k + v * l) / e" for u v e
    using sum_div [of h u f v g e rs] by (simp add: k_def l_def)
  from nc have nc': "\<not> (0 < d \<and> d * (1 + rcond\<^sup>2)\<^sup>2 \<le> rcond\<^sup>2 * (a + c)\<^sup>2)"
    by (simp add: cut_off_def Let_def dot_map a_def b_def c_def d_def)
  define l1 where "l1 = (a + c + sqrt ((a + c)\<^sup>2 - 4 * d)) / 2"
  define l2 where "l2 = (a + c - sqrt ((a + c)\<^sup>2 - 4 * d)) / 2"
  have P: "pinv (map f rs) (map g rs) =
     (if a + c = 0 then map (\<lambda>r. (0, 0)) rs
      else if rcond\<^sup>2 * (a + c)\<^sup>2 < d * (1 + rcond\<^sup>2)\<^sup>2 then
        map (\<lambda>r. ((c * f r - b * g r) / d, (a * g r - b * f r) / d)) rs
      else
        map (\<lambda>r. (((a - l2) * f r + b * g r) / (l1 * (l1 - l2)),
                   (b * f r + (c - l2) * g r) / (l1 * (l1 - l2)))) rs)"
    unfolding a_def b_def c_def d_def l1_def l2_def by (rule pinv_tests)
  show ?thesis
  proof (cases "a + c = 0")
    case True
    with a0 c0 have "a = 0" "c = 0" by simp_all
    with ab have "a = 0" "b = 0" "c = 0" by simp_all
    then show ?thesis
      by (simp add: P row_matmul_def dot_map comp_def)
  next
    case tr: False
    with a0 c0 have trp: "0 < a + c" by simp
    show ?thesis
    proof (cases "rcond\<^sup>2 * (a + c)\<^sup>2 < d * (1 + rcond\<^sup>2)\<^sup>2")
      case True
      have "0 \<le> rcond\<^sup>2 * (a + c)\<^sup>2" by simp
      with True have "0 < d * (1 + rcond\<^sup>2)\<^sup>2" by linarith
      then have "d \<noteq> 0" by auto
      with True tr show ?thesis
        by (simp add: P row_matmul_def dot_map comp_def 1 2 d_def [symmetric])
    next
      case False
      with nc' d0 have dz: "d = 0" by (simp add: not_less)
      have "sqrt ((a + c)\<^sup>2 - 4 * d) = a + c" using trp by (simp add: dz)
      then have rt: "l1 = a + c" "l2 = 0" by (simp_all add: l1_def l2_def)
      have ks: "a * l = b * k" "c * k = b * l"
      proof -
        have q: "sum_list (map (\<lambda>r. (u * f r + v * g r)\<^sup>2) rs) = u\<^sup>2 * a + 2 * u * v * b + v\<^sup>2 * c"
          for u v by (simp add: quad_form a_def b_def c_def)
        have "(- b)\<^sup>2 * a + 2 * (- b) * a * b + a\<^sup>2 * c = a * d"
          "c\<^sup>2 * a + 2 * c * (- b) * b + (- b)\<^sup>2 * c = c * d"
          by (simp_all add: d_def power2_eq_square algebra_simps)
        then have z: "sum_list (map (\<lambda>r. ((- b) * f r + a * g r)\<^sup>2) rs) = 0"
          "sum_list (map (\<lambda>r. (c * f r + (- b) * g r)\<^sup>2) rs) = 0"
          unfolding q by (simp_all only: dz mult_zero_right)
        from squares_zero [OF z(1), of h] show "a * l = b * k" by (simp add: k_def l_def)
        from squares_zero [OF z(2), of h] show "c * k = b * l" by (simp add: k_def l_def)
      qed
      have "(a * k + b * l) / ((a + c) * (a + c)) = k / (a + c)"
        "(b * k + c * l) / ((a + c) * (a + c)) = l / (a + c)"
      proof -
        have "a * k + b * l = k * (a + c)" "b * k + c * l = l * (a + c)"
          using ks by (simp_all add: algebra_simps)
        then show "(a * k + b * l) / ((a + c) * (a + c)) = k / (a + c)"
          "(b * k + c * l) / ((a + c) * (a + c)) = l / (a + c)"
          using tr by simp_all
      qed
      with False tr dz show ?thesis
        by (simp add: P row_matmul_def dot_map comp_def 3 rt d_def [symmetric])
    qed
  qed
qed

lemma pinv_min_norm_rows:
  fixes f g h :: "'a \<Rightarrow> real" and rs :: "'a list"
  assumes nc: "\<not> cut_off (map f rs) (map g rs)"
  shows "min_norm_least_squares (row_matmul (map h rs) (pinv (map f rs) (map g rs)))
           (map f rs) (map g rs) (map h rs)"
proof -
  define a where "a = sum_list (map (\<lambda>r. f r * f r) rs)"
  define b where "b = sum_list (map (\<lambda>r. f r * g r) rs)"
  define c where "c = sum_list (map (\<lambda>r. g r * g r) rs)"
  define k where "k = sum_list (map (\<lambda>r. h r * f r) rs)"
  define l where "l = sum_list (map (\<lambda>r. h r * g r) rs)"
  define e where "e = sum_list (map (\<lambda>r. h r * h r) rs)"
  define d where "d = a * c - b * b"
  define Q where "Q u v = u\<^sup>2 * a + 2 * u * v * b + v\<^sup>2 * c" for u v
  define R where "R q = residual q (map f rs) (map g rs) (map h rs)" for q
  define p where "p = row_matmul (map h rs) (pinv (map f rs) (map g rs))"
  have b': "b = sum_list (map (\<lambda>r. g r * f r) rs)"
    by (simp add: b_def mult.commute)
  have R: "R (u, v) = Q u v - 2 * u * k - 2 * v * l + e" for u v
    by (simp add: R_def Q_def residual_rows a_def b_def c_def k_def l_def e_def)
  have Qsq: "Q u v = sum_list (map (\<lambda>r. (u * f r + v * g r)\<^sup>2) rs)" for u v
    by (simp add: Q_def quad_form a_def b_def c_def)
  have Qpos: "0 \<le> Q u v" for u v
    unfolding Qsq by (rule sum_list_nonneg) auto
  have Qzero: "u * a + v * b = 0 \<and> u * b + v * c = 0 \<and> u * k + v * l = 0" if "Q u v = 0" for u v
  proof -
    from that have z: "sum_list (map (\<lambda>r. (u * f r + v * g r)\<^sup>2) rs) = 0"
      by (simp add: Qsq)
    have "u * a + v * b = 0"
      using squares_zero [OF z, of f] by (simp add: a_def b_def)
    moreover have "u * b + v * c = 0"
      using squares_zero [OF z, of g] by (simp add: b' c_def)
    moreover have "u * k + v * l = 0"
      using squares_zero [OF z, of h] by (simp add: k_def l_def)
    ultimately show ?thesis by simp
  qed
  have p: "p = (if d \<noteq> 0 then ((c * k - b * l) / d, (a * l - b * k) / d)
                else if a + c \<noteq> 0 then (k / (a + c), l / (a + c)) else (0, 0))"
    unfolding p_def d_def a_def b_def c_def k_def l_def by (rule pinv_rows [OF nc])
  have a0: "0 \<le> a" using Qpos [of 1 0] by (simp add: Q_def)
  have c0: "0 \<le> c" using Qpos [of 0 1] by (simp add: Q_def)
  have dep: "a * l = b * k \<and> c * k = b * l" if "d = 0"
  proof -
    have "Q (- b) a = a * d" "Q c (- b) = c * d"
      by (simp_all add: Q_def d_def power2_eq_square algebra_simps)
    with that have "Q (- b) a = 0" "Q c (- b) = 0" by simp_all
    from Qzero [OF this(1)] Qzero [OF this(2)] show ?thesis by (simp add: algebra_simps)
  qed
  have zero: "a = 0 \<and> b = 0 \<and> c = 0 \<and> k = 0 \<and> l = 0" if "a + c = 0"
  proof -
    from that a0 c0 have ac: "a = 0" "c = 0" by simp_all
    then have "Q 1 0 = 0" "Q 0 1 = 0" by (simp_all add: Q_def)
    from Qzero [OF this(1)] Qzero [OF this(2)] ac show ?thesis by simp
  qed
  have ne: "a * fst p + b * snd p = k \<and> b * fst p + c * snd p = l"
  proof (cases "d = 0")
    case False
    have "a * (c * k - b * l) + b * (a * l - b * k) = d * k"
      "b * (c * k - b * l) + c * (a * l - b * k) = d * l"
      by (simp_all add: d_def algebra_simps)
    then have "a * ((c * k - b * l) / d) + b * ((a * l - b * k) / d) = d * k / d"
      "b * ((c * k - b * l) / d) + c * ((a * l - b * k) / d) = d * l / d"
      by (simp_all add: add_divide_distrib [symmetric])
    with False show ?thesis
      by (simp add: p)
  next
    case True
    show ?thesis
    proof (cases "a + c = 0")
      case True
      with zero show ?thesis by (simp add: p)
    next
      case False
      have "a * k + b * l = k * (a + c)" "b * k + c * l = l * (a + c)"
        using dep [OF \<open>d = 0\<close>] by (simp_all add: algebra_simps)
      with False \<open>d = 0\<close> show ?thesis
        by (simp add: p add_divide_distrib [symmetric])
    qed
  qed
  have diff: "R q - R p = Q (fst q - fst p) (snd q - snd p)" for q
  proof -
    obtain u v where q: "q = (u, v)" by (cases q)
    obtain u' v' where p': "p = (u', v')" by (cases p)
    from ne have "k = a * u' + b * v'" "l = b * u' + c * v'" by (simp_all add: p')
    then show ?thesis
      by (simp add: q p' R Q_def power2_eq_square algebra_simps)
  qed
  have ls: "R p \<le> R q" for q
    using diff [of q] Qpos [of "fst q - fst p" "snd q - snd p"] by simp
  have mn: "(fst p)\<^sup>2 + (snd p)\<^sup>2 \<le> (fst q)\<^sup>2 + (snd q)\<^sup>2" if "\<forall>q'. R q \<le> R q'" for q
  proof -
    define u where "u = fst q - fst p"
    define v where "v = snd q - snd p"
    from that have "R q \<le> R p" by blast
    with diff [of q] Qpos [of u v] have "Q u v = 0" by (simp add: u_def v_def)
    from Qzero [OF this] have z: "u * a + v * b = 0" "u * b + v * c = 0" "u * k + v * l = 0"
      by simp_all
    have orth: "fst p * u + snd p * v = 0"
    proof (cases "d = 0")
      case False
      have "d * u = c * (u * a + v * b) - b * (u * b + v * c)"
        "d * v = a * (u * b + v * c) - b * (u * a + v * b)"
        by (simp_all add: d_def algebra_simps)
      then have "d * u = 0" "d * v = 0" by (simp_all only: z mult_zero_right diff_zero)
      with False have "u = 0" "v = 0" by simp_all
      then show ?thesis by simp
    next
      case True
      show ?thesis
      proof (cases "a + c = 0")
        case True
        with \<open>d = 0\<close> show ?thesis by (simp add: p)
      next
        case False
        have "k / (a + c) * u + l / (a + c) * v = (u * k + v * l) / (a + c)"
          by (simp add: add_divide_distrib mult.commute)
        with False \<open>d = 0\<close> z show ?thesis by (simp add: p)
      qed
    qed
    have "(fst q)\<^sup>2 + (snd q)\<^sup>2 = (fst p + u)\<^sup>2 + (snd p + v)\<^sup>2"
      by (simp add: u_def v_def)
    also have "\<dots> = (fst p)\<^sup>2 + (snd p)\<^sup>2 + 2 * (fst p * u + snd p * v) + (u\<^sup>2 + v\<^sup>2)"
      by (simp add: power2_eq_square algebra_simps)
    finally show ?thesis using orth by simp
  qed
  show ?thesis
    unfolding min_norm_least_squares_def least_squares_def
    using ls mn by (simp add: R_def p_def)
qed


lemma length_np_diff: "length (np_diff xs) = length xs - 1"
  by (induction xs rule: np_diff.induct) simp_all

lemma nth_np_diff: "Suc i < length xs \<Longrightarrow> np_diff xs ! i = xs ! Suc i - xs ! i"
proof (induction xs arbitrary: i rule: np_diff.induct)
  case (1 x y xs)
  then show ?case by (cases i) simp_all
qed simp_all

lemma np_diff_distinct: "distinct xs \<Longrightarrow> 0 \<notin> set (np_diff xs)"
proof
  assume d: "distinct xs" and "0 \<in> set (np_diff xs)"
  then obtain i where i: "i < length (np_diff xs)" "np_diff xs ! i = 0"
    by (auto simp: in_set_conv_nth)
  then have s: "Suc i < length xs" by (simp add: length_np_diff)
  with i have "xs ! Suc i = xs ! i" by (simp add: nth_np_diff)
  with d s show False by (simp add: nth_eq_iff_index_eq)
qed

lemma np_divide_forward:
  assumes "length t = length dq" "0 \<notin> set (np_diff t)"
  shows "np_divide (np_diff dq) (np_diff t) = Inr (forward_differences t dq)"
proof -
  have len: "length (np_diff dq) = length (np_diff t)"
    using assms(1) by (simp add: length_np_diff)
  have "map (\<lambda>p. fst p / snd p) (zip (np_diff dq) (np_diff t)) = forward_differences t dq"
    using assms(1)
    by (intro nth_equalityI) (simp_all add: forward_differences_def length_np_diff nth_np_diff)
  with len assms(2) show ?thesis
    by (simp add: np_divide_def broadcast_def)
qed

lemma rcond_sq: "rcond\<^sup>2 = 1 / 10 ^ 30"
  unfolding rcond_def power_divide power_one power_mult [symmetric] by simp

lemma pinv_lists:
  assumes len: "length xs = length ys"
    and dots: "dot xs xs = a" "dot xs ys = b" "dot ys ys = c"
  shows "pinv xs ys =
     (if a + c = 0 then map (\<lambda>r. (0, 0)) (zip xs ys)
      else if rcond\<^sup>2 * (a + c)\<^sup>2 < (a * c - b * b) * (1 + rcond\<^sup>2)\<^sup>2 then
        map (\<lambda>r. ((c * fst r - b * snd r) / (a * c - b * b),
                   (a * snd r - b * fst r) / (a * c - b * b))) (zip xs ys)
      else
        map (\<lambda>r. (((a - (a + c - sqrt ((a + c)\<^sup>2 - 4 * (a * c - b * b))) / 2) * fst r + b * snd r)
                     / ((a + c + sqrt ((a + c)\<^sup>2 - 4 * (a * c - b * b))) / 2
                        * ((a + c + sqrt ((a + c)\<^sup>2 - 4 * (a * c - b * b))) / 2
                           - (a + c - sqrt ((a + c)\<^sup>2 - 4 * (a * c - b * b))) / 2)),
                   (b * fst r + (c - (a + c - sqrt ((a + c)\<^sup>2 - 4 * (a * c - b * b))) / 2) * snd r)
                     / ((a + c + sqrt ((a + c)\<^sup>2 - 4 * (a * c - b * b))) / 2
                        * ((a + c + sqrt ((a + c)\<^sup>2 - 4 * (a * c - b * b))) / 2
                           - (a + c - sqrt ((a + c)\<^sup>2 - 4 * (a * c - b * b))) / 2)))) (zip xs ys))"
proof -
  have m: "map fst (zip xs ys) = xs" "map snd (zip xs ys) = ys"
    using len by simp_all
  have d: "sum_list (map (\<lambda>r. fst r * fst r) (zip xs ys)) = a"
    "sum_list (map (\<lambda>r. fst r * snd r) (zip xs ys)) = b"
    "sum_list (map (\<lambda>r. snd r * snd r) (zip xs ys)) = c"
    using dot_map [of fst "zip xs ys" fst] dot_map [of fst "zip xs ys" snd]
      dot_map [of snd "zip xs ys" snd]
    by (simp_all only: m dots)
  from pinv_tests [of fst "zip xs ys" snd] show ?thesis
    unfolding m d .
qed

lemma dot_self_nonneg: "0 \<le> dot xs xs"
  unfolding dot_def by (rule sum_list_nonneg) (auto simp: zip_same)

lemma pinv_kept:
  assumes len: "length xs = length ys"
    and dots: "dot xs xs = a" "dot xs ys = b" "dot ys ys = c"
    and big: "(a + c)\<^sup>2 < 10 ^ 30 * (a * c - b * b)"
  shows "pinv xs ys =
     map (\<lambda>r. ((c * fst r - b * snd r) / (a * c - b * b),
                (a * snd r - b * fst r) / (a * c - b * b))) (zip xs ys)"
proof -
  define d where "d = a * c - b * b"
  have "0 \<le> (a + c)\<^sup>2" by simp
  with big have "0 < 10 ^ 30 * d" unfolding d_def by (rule le_less_trans [rotated])
  then have dpos: "0 < d" by (simp add: zero_less_mult_iff)
  have a0: "0 \<le> a" "0 \<le> c" using dot_self_nonneg dots by auto
  have tr: "a + c \<noteq> 0"
  proof
    assume "a + c = 0"
    with a0 have "a = 0" "c = 0" by simp_all
    with dpos show False by (simp add: d_def)
  qed
  have "rcond\<^sup>2 * (a + c)\<^sup>2 < d"
    using big by (simp add: rcond_sq d_def field_simps)
  also have "d \<le> d * (1 + rcond\<^sup>2)\<^sup>2"
  proof -
    have "1 \<le> (1 + rcond\<^sup>2)\<^sup>2" by (rule one_le_power) simp
    with dpos show ?thesis by simp
  qed
  finally have "rcond\<^sup>2 * (a + c)\<^sup>2 < d * (1 + rcond\<^sup>2)\<^sup>2" .
  with tr show ?thesis
    unfolding pinv_lists [OF len dots] d_def by simp
qed

lemma pinv_cut:
  assumes len: "length xs = length ys"
    and dots: "dot xs xs = a" "dot xs ys = b" "dot ys ys = c"
    and tr: "a + c \<noteq> 0"
    and small: "4 * 10 ^ 30 * (a * c - b * b) \<le> (a + c)\<^sup>2"
    and rt: "sqrt ((a + c)\<^sup>2 - 4 * (a * c - b * b)) = rt"
  shows "pinv xs ys =
     map (\<lambda>r. (((a - (a + c - rt) / 2) * fst r + b * snd r)
                  / ((a + c + rt) / 2 * ((a + c + rt) / 2 - (a + c - rt) / 2)),
                (b * fst r + (c - (a + c - rt) / 2) * snd r)
                  / ((a + c + rt) / 2 * ((a + c + rt) / 2 - (a + c - rt) / 2)))) (zip xs ys)"
proof -
  define d where "d = a * c - b * b"
  have d0: "0 \<le> d"
    using gram_facts(3) [of fst "zip xs ys" snd] dot_map [of fst "zip xs ys" fst]
      dot_map [of fst "zip xs ys" snd] dot_map [of snd "zip xs ys" snd] len dots
    by (simp add: d_def)
  have "(1 + rcond\<^sup>2)\<^sup>2 \<le> 2\<^sup>2"
    using rcond_bounds by (intro power_mono) simp_all
  then have "d * (1 + rcond\<^sup>2)\<^sup>2 \<le> d * 4" using d0 by (simp add: mult_left_mono)
  also have "d * 4 \<le> rcond\<^sup>2 * (a + c)\<^sup>2"
    using small by (simp add: rcond_sq d_def field_simps)
  finally have "\<not> rcond\<^sup>2 * (a + c)\<^sup>2 < (a * c - b * b) * (1 + rcond\<^sup>2)\<^sup>2"
    by (simp add: d_def)
  with tr show ?thesis
    unfolding pinv_lists [OF len dots] rt by (simp only: if_False)
qed

lemma pinv_Nil: "pinv [] ys = []"
  by (simp add: pinv_def Let_def)

lemmas get_params_unfold =
  get_params_def np_divide_def broadcast_def pinv_Nil row_matmul_def dot_def

text \<open>
  C1. The claim: the first component of the result is the least-squares coefficient of the
  acceleration column \<open>ddq\<close> (the moment of inertia \<open>J\<close>) and the second is the
  coefficient of the velocity column \<open>dq\<close> (the friction \<open>B\<close>). The code stacks the rows
  as \<open>[dq, ddq]\<close> and returns \<open>(params[0, 0], params[0, 1])\<close>, so the first component
  is the coefficient of \<open>dq\<close>. Evaluation at three samples whose current is exactly
  \<open>2 * ddq + 1/2 * dq\<close>: the aligned columns are \<open>dq = [1, 3]\<close>, \<open>ddq = [1, 2]\<close>,
  \<open>I = [5/2, 11/2]\<close>, and the result is \<open>(1/2, 2)\<close>, velocity coefficient first.
\<close>
theorem get_params_returns_velocity_coefficient_first:
  "get_params [0, 1, 2] [(0, 0, 0, 0), (0, 1, 5 / 2, 0), (0, 3, 11 / 2, 0)] = Inr (1 / 2, 2)
   \<and> np_divide (np_diff [0, 1, 3]) (np_diff [0, 1, 2]) = Inr [1, 2]
   \<and> [5 / 2, 11 / 2] = map (\<lambda>p. 2 * snd p + 1 / 2 * fst p) (zip [1, 3] [1, 2 :: real])"
proof -
  have "pinv [1, 3] [1, 2] =
      map (\<lambda>r. ((5 * fst r - 7 * snd r) / (10 * 5 - 7 * 7),
                 (10 * snd r - 7 * fst r) / (10 * 5 - 7 * 7))) (zip [1, 3] [1, 2])"
    by (rule pinv_kept [where a = 10 and b = 7 and c = 5]) (simp_all add: dot_def)
  then have "pinv [1, 3] [1, 2] = [(- 2, 3), (1, - 1)]" by simp
  then show ?thesis
    by (simp add: get_params_def np_divide_def broadcast_def row_matmul_def dot_def)
qed

text \<open>
  C4, as stated, fails: \<open>get_params\<close> has no check of the number of samples. On one
  sample the differences are empty, the pseudo-inverse of the empty matrix is empty, and
  the product is \<open>(0, 0)\<close>: a result, not an error.
\<close>
theorem get_params_single_sample_returns:
  "get_params [0] [(0, 0, 0, 0)] = Inr (0, 0)"
  by (simp add: get_params_unfold)

text \<open>
  C4, amended: on an empty recording \<open>get_params\<close> fails with IndexError; on a recording
  of one sample it returns \<open>(0, 0)\<close>; on exactly two samples with different timestamps
  it returns the product of the second current with the pseudo-inverse of the one-column
  matrix built from the second velocity and the one finite difference.
\<close>
theorem get_params_sample_count:
  "get_params ts [] = Inl IndexError
   \<and> get_params [t] [s] = Inr (0, 0)
   \<and> (t0 \<noteq> t1 \<longrightarrow>
        get_params [t0, t1] [s0, s1] =
          Inr (row_matmul [col2 s1] (pinv [col1 s1] [(col1 s1 - col1 s0) / (t1 - t0)])))"
  by (simp add: get_params_def np_divide_def broadcast_def pinv_Nil row_matmul_def Let_def)
    (simp add: dot_def)

text \<open>Two samples one second apart.\<close>
theorem get_params_sample_count_witness:
  "(0::real) \<noteq> 1
   \<and> get_params [] [] = Inl IndexError
   \<and> get_params [0] [(0, 3, 11 / 2, 0)] = Inr (0, 0)
   \<and> get_params [0, 1] [(0, 0, 0, 0), (0, 3, 11 / 2, 0)] = Inr (11 / 12, 11 / 12)"
proof -
  have "sqrt ((9 + 9)\<^sup>2 - 4 * (9 * 9 - 9 * 9)) = (18 :: real)"
    by (rule real_sqrt_unique) simp_all
  then have "pinv [3] [3] =
      map (\<lambda>r. (((9 - (9 + 9 - 18) / 2) * fst r + 9 * snd r)
                   / ((9 + 9 + 18) / 2 * ((9 + 9 + 18) / 2 - (9 + 9 - 18) / 2)),
                 (9 * fst r + (9 - (9 + 9 - 18) / 2) * snd r)
                   / ((9 + 9 + 18) / 2 * ((9 + 9 + 18) / 2 - (9 + 9 - 18) / 2)))) (zip [3] [3])"
    by (intro pinv_cut [where a = 9 and b = 9 and c = 9]) (simp_all add: dot_def)
  then have "pinv [3] [3] = [(1 / 6, 1 / 6)]" by simp
  with get_params_sample_count [of "[]" 0 "(0, 3, 11 / 2, 0)" 0 1 "(0, 0, 0, 0)" "(0, 3, 11 / 2, 0)"]
  show ?thesis by (simp add: row_matmul_def dot_def)
qed

text \<open>
  C7, amended. For a recording of \<open>n \<ge> 2\<close> samples with pairwise distinct timestamps,
  \<open>get_params\<close> returns (it does not raise, whatever the rank of the data); the
  accelerations are the \<open>n - 1\<close> forward differences of the velocity column; velocity and
  current lose their first entry, so that they align with the accelerations; and the
  result is the current times the pseudo-inverse of the matrix with the rows \<open>[dq, ddq]\<close>.
  Unless the pseudo-inverse cuts a singular value that is not zero, this is the
  minimum-norm least-squares solution of the system of \<open>n - 1\<close> rows.
\<close>
theorem get_params_pseudo_inverse:
  assumes "length ts = length ss" and "2 \<le> length ss" and "distinct ts"
  shows "length (forward_differences ts (map col1 ss)) = length ss - 1
    \<and> get_params ts ss =
        Inr (row_matmul (tl (map col2 ss))
               (pinv (tl (map col1 ss)) (forward_differences ts (map col1 ss))))
    \<and> (\<not> cut_off (tl (map col1 ss)) (forward_differences ts (map col1 ss)) \<longrightarrow>
          min_norm_least_squares
            (row_matmul (tl (map col2 ss))
               (pinv (tl (map col1 ss)) (forward_differences ts (map col1 ss))))
            (tl (map col1 ss)) (forward_differences ts (map col1 ss)) (tl (map col2 ss)))"
proof -
  define dq where "dq = tl (map col1 ss)"
  define I where "I = tl (map col2 ss)"
  define ddq where "ddq = forward_differences ts (map col1 ss)"
  define rs where "rs = zip dq (zip ddq I)"
  have len: "length ddq = length ss - 1" "length dq = length ss - 1"
    "length I = length ss - 1"
    by (simp_all add: ddq_def dq_def I_def forward_differences_def)
  have div: "np_divide (np_diff (map col1 ss)) (np_diff ts) = Inr ddq"
    unfolding ddq_def using assms by (intro np_divide_forward np_diff_distinct) simp_all
  have ne: "ss \<noteq> []" using assms(2) by auto
  have gp: "get_params ts ss = Inr (row_matmul I (pinv dq ddq))"
    using ne div len by (simp add: get_params_def dq_def I_def)
  have maps: "map fst rs = dq" "map (\<lambda>r. fst (snd r)) rs = ddq" "map (\<lambda>r. snd (snd r)) rs = I"
  proof -
    have s: "map snd rs = zip ddq I" using len by (simp add: rs_def)
    show "map fst rs = dq" using len by (simp add: rs_def)
    have "map (\<lambda>r. fst (snd r)) rs = map fst (map snd rs)" by (simp add: comp_def)
    then show "map (\<lambda>r. fst (snd r)) rs = ddq" using len by (simp add: s)
    have "map (\<lambda>r. snd (snd r)) rs = map snd (map snd rs)" by (simp add: comp_def)
    then show "map (\<lambda>r. snd (snd r)) rs = I" using len by (simp add: s)
  qed
  have "min_norm_least_squares (row_matmul I (pinv dq ddq)) dq ddq I" if "\<not> cut_off dq ddq"
  proof -
    from that have "\<not> cut_off (map fst rs) (map (\<lambda>r. fst (snd r)) rs)"
      unfolding maps .
    from pinv_min_norm_rows [OF this, of "\<lambda>r. snd (snd r)"] show ?thesis
      by (simp only: maps)
  qed
  with gp len show ?thesis
    unfolding dq_def I_def ddq_def by blast
qed

lemma tiny_root: "sqrt ((1 + 1 / 10 ^ 32)\<^sup>2 - 4 * (1 * (1 / 10 ^ 32) - 0 * 0)) = 1 - 1 / 10 ^ 32"
  by (rule real_sqrt_unique) (simp_all add: power2_eq_square field_simps)

lemma pinv_nearly_singular: "pinv [1, 0] [0, - 1 / 10 ^ 16] = [(1, 0), (0, 0)]"
proof -
  have "pinv [1, 0] [0, - 1 / 10 ^ 16] =
      map (\<lambda>r. (((1 - (1 + 1 / 10 ^ 32 - (1 - 1 / 10 ^ 32)) / 2) * fst r + 0 * snd r)
                   / ((1 + 1 / 10 ^ 32 + (1 - 1 / 10 ^ 32)) / 2
                      * ((1 + 1 / 10 ^ 32 + (1 - 1 / 10 ^ 32)) / 2
                         - (1 + 1 / 10 ^ 32 - (1 - 1 / 10 ^ 32)) / 2)),
                 (0 * fst r + (1 / 10 ^ 32 - (1 + 1 / 10 ^ 32 - (1 - 1 / 10 ^ 32)) / 2) * snd r)
                   / ((1 + 1 / 10 ^ 32 + (1 - 1 / 10 ^ 32)) / 2
                      * ((1 + 1 / 10 ^ 32 + (1 - 1 / 10 ^ 32)) / 2
                         - (1 + 1 / 10 ^ 32 - (1 - 1 / 10 ^ 32)) / 2)))) (zip [1, 0] [0, - 1 / 10 ^ 16])"
    by (rule pinv_cut [where a = 1 and b = 0 and c = "1 / 10 ^ 32", OF _ _ _ _ _ _ tiny_root])
      (simp_all add: dot_def power2_eq_square)
  then show ?thesis by simp
qed

text \<open>
  C7, as stated, fails on data that are nearly, but not exactly, rank deficient. With the
  velocities \<open>[1, 1, 0]\<close>, the currents \<open>[0, 0, 1]\<close> and the timestamps
  \<open>[0, 1, 10^16 + 1]\<close> the aligned rows are \<open>dq = [1, 0]\<close> and \<open>ddq = [0, -1e-16]\<close>; the
  singular values are 1 and \<open>1e-16\<close>, the smaller one is cut, and the result is \<open>(0, 0)\<close>
  with the squared residual 1, while \<open>(0, -1e16)\<close> has the residual 0.
\<close>
theorem get_params_cuts_small_singular_value:
  "distinct [0, 1, 10 ^ 16 + 1 :: real]
   \<and> get_params [0, 1, 10 ^ 16 + 1] [(0, 1, 0, 0), (0, 1, 0, 0), (0, 0, 1, 0)] = Inr (0, 0)
   \<and> forward_differences [0, 1, 10 ^ 16 + 1] [1, 1, 0] = [0, - 1 / 10 ^ 16]
   \<and> residual (0, 0) [1, 0] [0, - 1 / 10 ^ 16] [0, 1] = 1
   \<and> residual (0, - (10 ^ 16)) [1, 0] [0, - 1 / 10 ^ 16] [0, 1] = 0"
proof -
  have fd: "forward_differences [0, 1, 10 ^ 16 + 1] [1, 1, 0] = [0, - 1 / 10 ^ 16 :: real]"
    by (simp add: forward_differences_def upt_rec)
  have gp: "get_params [0, 1, 10 ^ 16 + 1] [(0, 1, 0, 0), (0, 1, 0, 0), (0, 0, 1, 0)] = Inr (0, 0)"
    by (simp add: get_params_def np_divide_def broadcast_def Let_def
        pinv_nearly_singular [simplified] row_matmul_def dot_def)
  from fd gp show ?thesis
    by (simp add: residual_def)
qed

text \<open>The three samples of C1: no singular value is cut.\<close>
theorem get_params_pseudo_inverse_witness:
  "length [0, 1, 2 :: real] = length [(0, 0, 0, 0), (0, 1, 5 / 2, 0), (0, 3, 11 / 2, 0 :: real)]
   \<and> 2 \<le> length [(0, 0, 0, 0), (0, 1, 5 / 2, 0), (0, 3, 11 / 2, 0 :: real)]
   \<and> distinct [0, 1, 2 :: real]
   \<and> forward_differences [0, 1, 2] [0, 1, 3] = [1, 2]
   \<and> \<not> cut_off [1, 3] [1, 2]
   \<and> get_params [0, 1, 2] [(0, 0, 0, 0), (0, 1, 5 / 2, 0), (0, 3, 11 / 2, 0)] = Inr (1 / 2, 2)
   \<and> min_norm_least_squares (1 / 2, 2) [1, 3] [1, 2] [5 / 2, 11 / 2]"
proof -
  have fd: "forward_differences [0, 1, 2] [0, 1, 3] = [1, 2]"
    by (simp add: forward_differences_def upt_rec)
  have "1 \<le> (1 + rcond\<^sup>2)\<^sup>2" by (rule one_le_power) simp
  moreover have "rcond\<^sup>2 * 225 < 1" by (simp add: rcond_sq)
  ultimately have "\<not> (1 + rcond\<^sup>2)\<^sup>2 \<le> rcond\<^sup>2 * 225" by linarith
  then have nc: "\<not> cut_off [1, 3] [1, 2]"
    by (simp add: cut_off_def dot_def)
  have "pinv [1, 3] [1, 2] =
      map (\<lambda>r. ((5 * fst r - 7 * snd r) / (10 * 5 - 7 * 7),
                 (10 * snd r - 7 * fst r) / (10 * 5 - 7 * 7))) (zip [1, 3] [1, 2])"
    by (rule pinv_kept [where a = 10 and b = 7 and c = 5]) (simp_all add: dot_def)
  then have p: "row_matmul [5 / 2, 11 / 2] (pinv [1, 3] [1, 2]) = (1 / 2, 2)"
    by (simp add: row_matmul_def dot_def)
  from get_params_pseudo_inverse
      [of "[0, 1, 2]" "[(0, 0, 0, 0), (0, 1, 5 / 2, 0), (0, 3, 11 / 2, 0)]"] nc
  show ?thesis
    by (simp add: fd p)
qed
section \<open>Properties of the controller\<close>

lemma invoke_fields [simp]:
  "fst (invoke c f m) = fst (f (device m))"
  "device (snd (invoke c f m)) = snd (f (device m))"
  "calls (snd (invoke c f m)) = calls m @ [c]"
  "kp (snd (invoke c f m)) = kp m"
  "kd (snd (invoke c f m)) = kd m"
  "initial_velocity (snd (invoke c f m)) = initial_velocity m"
  "q_def (snd (invoke c f m)) = q_def m"
  "time_stop (snd (invoke c f m)) = time_stop m"
  "state (snd (invoke c f m)) = state m"
  "error (snd (invoke c f m)) = error m"
  "time (snd (invoke c f m)) = time m"
  by (simp_all add: invoke_def Let_def)

lemma pd_regulator_fields [simp]:
  "calls (snd (pd_regulator drv m)) =
     calls m @ [SetCurrent (kp m * (q_def m - fst (drv_state drv (device m)))
                + kd m * (initial_velocity m - fst (snd (drv_state drv (device m)))))]"
  "kp (snd (pd_regulator drv m)) = kp m"
  "kd (snd (pd_regulator drv m)) = kd m"
  "initial_velocity (snd (pd_regulator drv m)) = initial_velocity m"
  "q_def (snd (pd_regulator drv m)) = q_def m"
  "time_stop (snd (pd_regulator drv m)) = time_stop m"
  "error (snd (pd_regulator drv m)) = error m"
  "time (snd (pd_regulator drv m)) = time m"
  by (simp_all add: pd_regulator_def Let_def case_prod_beta split: option.splits)


lemma tick_fields [simp]:
  "calls (snd (tick drv clock t0 m)) = calls (snd (pd_regulator drv m))"
  "kp (snd (tick drv clock t0 m)) = kp m"
  "kd (snd (tick drv clock t0 m)) = kd m"
  "initial_velocity (snd (tick drv clock t0 m)) = initial_velocity m"
  "q_def (snd (tick drv clock t0 m)) = q_def m"
  "time_stop (snd (tick drv clock t0 m)) = time_stop m"
  "state (snd (tick drv clock t0 m)) = state (snd (pd_regulator drv m))"
  by (simp_all add: tick_def Let_def case_prod_beta split: sum.splits)

lemma tick_Inr:
  assumes "fst (tick drv clock t0 m) = Inr t"
  shows "t = perf_counter clock m - t0"
    and "time (snd (tick drv clock t0 m)) = time m @ [t]"
    and "error (snd (tick drv clock t0 m)) = error m @ [q_def m - fst (drv_state drv (device m))]"
    and "state (snd (tick drv clock t0 m)) =
           state m @ [(fst (drv_state drv (device m)), fst (snd (drv_state drv (device m))),
             snd (snd (drv_state drv (device (snd (tick drv clock t0 m))))),
             snd (projr (fst (pd_regulator drv m))))]"
    and "length (calls (snd (tick drv clock t0 m))) = Suc (length (calls m))"
  using assms
  by (auto simp add: tick_def Let_def case_prod_beta pd_regulator_def split: sum.splits option.splits)

lemma tick_Inl:
  assumes "fst (tick drv clock t0 m) = Inl x"
  shows "time (snd (tick drv clock t0 m)) = time m"
    and "error (snd (tick drv clock t0 m)) = error m"
    and "state (snd (tick drv clock t0 m)) = state m"
  using assms
  by (auto simp add: tick_def Let_def case_prod_beta pd_regulator_def split: sum.splits option.splits)

lemma while_loop_Suc_Inl:
  "t < time_stop m \<Longrightarrow> fst (tick drv clock t0 m) = Inl x \<Longrightarrow>
     while_loop (Suc n) drv clock t0 t m = (Raised x, snd (tick drv clock t0 m))"
  by (simp add: case_prod_beta)

lemma while_loop_Suc_Inr:
  "t < time_stop m \<Longrightarrow> fst (tick drv clock t0 m) = Inr t' \<Longrightarrow>
     while_loop (Suc n) drv clock t0 t m = while_loop n drv clock t0 t' (snd (tick drv clock t0 m))"
  by (simp add: case_prod_beta)

declare while_loop.simps(2) [simp del]

lemma while_loop_Finished:
  "\<not> t < time_stop m \<Longrightarrow> while_loop n drv clock t0 t m = (Finished, m)"
  by (cases n) (simp_all add: while_loop.simps(2))

lemma setup_model_fields [simp]:
  "kp (snd (setup_model drv l m)) = kp m"
  "kd (snd (setup_model drv l m)) = kd m"
  "initial_velocity (snd (setup_model drv l m)) = initial_velocity m"
  "q_def (snd (setup_model drv l m)) = q_def m"
  "time_stop (snd (setup_model drv l m)) = time_stop m"
  "state (snd (setup_model drv l m)) = state m"
  "error (snd (setup_model drv l m)) = error m"
  "time (snd (setup_model drv l m)) = time m"
  by (simp_all add: setup_model_def case_prod_beta split: option.splits)

lemma init_fields [simp]:
  "kp (snd (init drv dp d)) = DeviceParams.kp dp"
  "kd (snd (init drv dp d)) = DeviceParams.kd dp"
  "initial_velocity (snd (init drv dp d)) = dq_def dp"
  "q_def (snd (init drv dp d)) = DeviceParams.q_def dp"
  "time_stop (snd (init drv dp d)) = DeviceParams.time_stop dp"
  "state (snd (init drv dp d)) = []"
  "error (snd (init drv dp d)) = []"
  "time (snd (init drv dp d)) = []"
  by (simp_all add: init_def)

text \<open>
  C6, amended. The constructor copies the gains and the targets of the configuration.
  On every pass the command is \<open>u = kp * (q_def - q) + kd * (dq_def - dq)\<close> for the
  angle and the velocity read at the start of the pass, and it is sent to the driver.
  If the driver returns, the pass appends the row \<open>(q, dq, current, u)\<close>, the error
  \<open>q_def - q\<close> and the elapsed time, where \<open>current\<close> is read from the state that the
  driver has after the command, not the state read at the start of the pass.
\<close>
theorem tick_command_and_sample:
  "kp (snd (init drv dp d)) = DeviceParams.kp dp
   \<and> kd (snd (init drv dp d)) = DeviceParams.kd dp
   \<and> q_def (snd (init drv dp d)) = DeviceParams.q_def dp
   \<and> initial_velocity (snd (init drv dp d)) = dq_def dp
   \<and> (let q = fst (drv_state drv (device m));
           dq = fst (snd (drv_state drv (device m)));
           u = kp m * (q_def m - q) + kd m * (initial_velocity m - dq);
           r = drv_set_current drv u (device m);
           elapsed = perf_counter clock m - t0
       in calls (snd (tick drv clock t0 m)) = calls m @ [SetCurrent u]
          \<and> (fst r = None \<longrightarrow>
               tick drv clock t0 m =
                 (Inr elapsed,
                  m\<lparr>device := snd r, calls := calls m @ [SetCurrent u],
                    state := state m @ [(q, dq, snd (snd (drv_state drv (snd r))), u)],
                    error := error m @ [q_def m - q],
                    time := time m @ [elapsed]\<rparr>)))"
  by (simp add: Let_def tick_def pd_regulator_def invoke_def case_prod_beta split: option.splits)

lemma bench_eq:
  assumes "fails 0 SetDegrees = None" "fails 1 (SetCurrentLimit 200) = None" "fails 2 Enable = None"
  shows "bench fails stop =
     \<lparr>device = (3, 0, 0, 0), calls = [SetDegrees, SetCurrentLimit 200, Enable],
      kp = 3, kd = 3, initial_velocity = 0, q_def = 90, time_stop = stop,
      state = [], error = [], time = []\<rparr>"
  using assms
  by (simp add: bench_def init_def setup_model_def invoke_def mock_def dev_param_def)

lemma bench_reliable:
  "bench reliable stop =
     \<lparr>device = (3, 0, 0, 0), calls = [SetDegrees, SetCurrentLimit 200, Enable],
      kp = 3, kd = 3, initial_velocity = 0, q_def = 90, time_stop = stop,
      state = [], error = [], time = []\<rparr>"
  by (rule bench_eq) (simp_all add: reliable_def)

lemmas run_unfold =
  while_loop.simps tick_def pd_regulator_def invoke_def mock_def perf_counter_def
  except_block_def finally_block_def simulate_def plot_def Let_def

text \<open>
  C6, as stated, fails in its last part: the recorded current is the one the driver
  reports after the command. The mock actuator at rest reports the current 0 before the
  first command of 270 and the current 270 after it, and the recorded row holds 270.
\<close>
theorem tick_records_current_after_command:
  "drv_state (mock reliable) (device (bench reliable 10)) = (0, 0, 0)
   \<and> state (snd (tick (mock reliable) real 3 (bench reliable 10))) = [(0, 0, 270, 270)]"
  by (simp add: bench_reliable run_unfold reliable_def)

text \<open>The first pass on the mock actuator.\<close>
theorem tick_command_and_sample_witness:
  "fst (drv_set_current (mock reliable) 270 (device (bench reliable 10))) = None
   \<and> tick (mock reliable) real 3 (bench reliable 10) =
       (Inr 0, (bench reliable 10)\<lparr>device := (4, 0, 0, 270), calls := calls (bench reliable 10) @ [SetCurrent 270],
                 state := [(0, 0, 270, 270)], error := [90], time := [0]\<rparr>)"
  using tick_command_and_sample [of "mock reliable" dev_param "(0, 0, 0, 0)" "bench reliable 10" real 3]
  by (simp add: bench_reliable run_unfold reliable_def Let_def)

lemma tick_aligned:
  assumes "aligned m"
  shows "aligned (snd (tick drv clock t0 m))"
proof (cases "fst (tick drv clock t0 m)")
  case (Inl x)
  from tick_Inl [OF this] assms show ?thesis by (simp add: aligned_def)
next
  case (Inr t)
  from tick_Inr [OF this] assms show ?thesis by (simp add: aligned_def)
qed

lemma while_loop_aligned:
  "aligned m \<Longrightarrow> aligned (snd (while_loop n drv clock t0 t m))"
proof (induction n arbitrary: t m)
  case 0
  then show ?case by simp
next
  case (Suc n)
  from tick_aligned [OF Suc.prems] have "aligned (snd (tick drv clock t0 m))" .
  with Suc show ?case
    by (auto simp add: while_loop.simps(2) case_prod_beta split: sum.splits)
qed

lemma while_loop_q_def [simp]:
  "q_def (snd (while_loop n drv clock t0 t m)) = q_def m"
  "time_stop (snd (while_loop n drv clock t0 t m)) = time_stop m"
  by (induction n arbitrary: t m) (auto simp add: while_loop.simps(2) case_prod_beta split: sum.splits)

text \<open>
  C9. The lists of a new object are aligned, and a pass, and so the loop stopped after any
  number of passes (or left by an exception of the driver), keeps them aligned: the
  three lists have the same length and every recorded error is the target angle minus
  the recorded angle. The target angle does not change.
\<close>
theorem recorded_arrays_stay_aligned:
  "aligned (snd (init drv dp d))
   \<and> (aligned m \<longrightarrow>
        aligned (snd (tick drv clock t0 m))
        \<and> aligned (snd (while_loop n drv clock t0 t m))
        \<and> q_def (snd (while_loop n drv clock t0 t m)) = q_def m)"
  by (simp add: tick_aligned while_loop_aligned) (simp add: aligned_def)


text \<open>Two passes on the mock actuator.\<close>
theorem recorded_arrays_stay_aligned_witness:
  "aligned (bench reliable 10)
   \<and> aligned (snd (tick (mock reliable) real 3 (bench reliable 10)))
   \<and> aligned (snd (while_loop 2 (mock reliable) real 3 0 (bench reliable 10)))
   \<and> q_def (snd (while_loop 2 (mock reliable) real 3 0 (bench reliable 10))) = q_def (bench reliable 10)"
proof -
  have "aligned (bench reliable 10)" by (simp add: bench_reliable aligned_def)
  with recorded_arrays_stay_aligned [of "mock reliable" dev_param "(0, 0, 0, 0)" "bench reliable 10" real 3 2 0]
  show ?thesis by simp
qed

lemma while_loop_times:
  assumes "time m = [] \<or> last (time m) = t"
    and "\<forall>x \<in> set (butlast (time m)). x < time_stop m"
  shows "\<forall>x \<in> set (butlast (time (snd (while_loop n drv clock t0 t m)))). x < time_stop m"
  using assms
proof (induction n arbitrary: t m)
  case 0
  then show ?case by simp
next
  case (Suc n)
  show ?case
  proof (cases "t < time_stop m")
    case False
    with Suc.prems show ?thesis by (simp add: while_loop_Finished)
  next
    case True
    show ?thesis
    proof (cases "fst (tick drv clock t0 m)")
      case (Inl x)
      from tick_Inl(1) [OF Inl] Suc.prems show ?thesis
        by (simp add: while_loop_Suc_Inl [OF True Inl])
    next
      case (Inr t')
      define m1 where "m1 = snd (tick drv clock t0 m)"
      have tm: "time m1 = time m @ [t']" unfolding m1_def by (rule tick_Inr(2) [OF Inr])
      have all: "\<forall>x \<in> set (time m). x < time_stop m"
      proof
        fix x assume x: "x \<in> set (time m)"
        then have ne: "time m \<noteq> []" by auto
        with Suc.prems(1) have l: "last (time m) = t" by simp
        from ne have "time m = butlast (time m) @ [last (time m)]" by simp
        then have "set (time m) = set (butlast (time m)) \<union> {last (time m)}"
          by (metis list.set(1) list.simps(15) set_append)
        with x have "x \<in> set (butlast (time m)) \<or> x = last (time m)" by auto
        with Suc.prems(2) l True show "x < time_stop m" by auto
      qed
      have ts: "time_stop m1 = time_stop m" by (simp add: m1_def)
      have "\<forall>x \<in> set (butlast (time (snd (while_loop n drv clock t0 t' m1)))). x < time_stop m1"
        by (rule Suc.IH) (simp_all add: tm ts all)
      then show ?thesis
        by (simp add: while_loop_Suc_Inr [OF True Inr] ts flip: m1_def)
    qed
  qed
qed

lemma while_loop_grows:
  "length (time m) \<le> length (time (snd (while_loop n drv clock t0 t m)))
   \<and> length (state m) \<le> length (state (snd (while_loop n drv clock t0 t m)))"
proof (induction n arbitrary: t m)
  case 0
  then show ?case by simp
next
  case (Suc n)
  show ?case
  proof (cases "t < time_stop m")
    case False
    then show ?thesis by (simp add: while_loop_Finished)
  next
    case True
    show ?thesis
    proof (cases "fst (tick drv clock t0 m)")
      case (Inl x)
      from tick_Inl [OF Inl] show ?thesis
        by (simp add: while_loop_Suc_Inl [OF True Inl] del: tick_fields)
    next
      case (Inr t')
      define m1 where "m1 = snd (tick drv clock t0 m)"
      from tick_Inr(2,4) [OF Inr] have "length (time m) \<le> length (time m1)"
        "length (state m) \<le> length (state m1)" by (simp_all add: m1_def del: tick_fields)
      with Suc.IH [of m1 t'] show ?thesis
        by (simp add: while_loop_Suc_Inr [OF True Inr] flip: m1_def)
    qed
  qed
qed



lemma short_run:
  "while_loop 2 (mock reliable) real 3 0 (bench reliable 1) =
     (Finished,
      \<lparr>device = (5, 0, 0, 270),
       calls = [SetDegrees, SetCurrentLimit 200, Enable, SetCurrent 270, SetCurrent 270],
       kp = 3, kd = 3, initial_velocity = 0, q_def = 90, time_stop = 1,
       state = [(0, 0, 270, 270), (0, 0, 270, 270)], error = [90, 90], time = [0, 1]\<rparr>)"
  by (simp add: numeral_2_eq_2 bench_reliable run_unfold reliable_def)

lemma tick_returns:
  assumes "\<forall>u d. fst (drv_set_current drv u d) = None"
  shows "fst (tick drv clock t0 m) = Inr (perf_counter clock m - t0)"
  using assms
  by (simp add: tick_def pd_regulator_def Let_def case_prod_beta split: option.splits)

lemma while_loop_reaches:
  assumes ok: "\<forall>u d. fst (drv_set_current drv u d) = None"
  shows "t < time_stop m \<Longrightarrow> length (calls m) \<le> k
    \<Longrightarrow> \<forall>i. length (calls m) \<le> i \<and> i < k \<longrightarrow> clock i - t0 < time_stop m
    \<Longrightarrow> time_stop m \<le> clock k - t0
    \<Longrightarrow> k - length (calls m) < n
    \<Longrightarrow> fst (while_loop n drv clock t0 t m) = Finished
        \<and> length (calls (snd (while_loop n drv clock t0 t m))) = Suc k
        \<and> time (snd (while_loop n drv clock t0 t m)) \<noteq> []
        \<and> last (time (snd (while_loop n drv clock t0 t m))) = clock k - t0"
proof (induction n arbitrary: t m)
  case 0
  then show ?case by simp
next
  case (Suc n)
  define t' where "t' = perf_counter clock m - t0"
  define m1 where "m1 = snd (tick drv clock t0 m)"
  have r: "fst (tick drv clock t0 m) = Inr t'"
    unfolding t'_def by (rule tick_returns [OF ok])
  have step: "while_loop (Suc n) drv clock t0 t m = while_loop n drv clock t0 t' m1"
    unfolding m1_def by (rule while_loop_Suc_Inr [OF Suc.prems(1) r])
  have c1: "length (calls m1) = Suc (length (calls m))"
    unfolding m1_def by (rule tick_Inr(5) [OF r])
  have tm: "time m1 = time m @ [t']"
    unfolding m1_def by (rule tick_Inr(2) [OF r])
  have ts: "time_stop m1 = time_stop m" by (simp add: m1_def)
  show ?case
  proof (cases "length (calls m) = k")
    case True
    then have "\<not> t' < time_stop m1"
      using Suc.prems(4) by (simp add: t'_def perf_counter_def ts)
    then have "while_loop n drv clock t0 t' m1 = (Finished, m1)"
      by (rule while_loop_Finished)
    with True c1 tm show ?thesis
      by (simp add: step t'_def perf_counter_def)
  next
    case False
    with Suc.prems(2) have lt: "length (calls m) < k" by simp
    with Suc.prems(3) have "t' < time_stop m1"
      by (simp add: t'_def perf_counter_def ts)
    moreover have "Suc (length (calls m)) \<le> k" using lt by simp
    moreover have "\<forall>i. Suc (length (calls m)) \<le> i \<and> i < k \<longrightarrow> clock i - t0 < time_stop m"
      using Suc.prems(3) by simp
    moreover have "k - Suc (length (calls m)) < n" using Suc.prems(5) lt by simp
    ultimately show ?thesis
      using Suc.IH [of t' m1] Suc.prems(4) by (simp add: step c1 ts)
  qed
qed

text \<open>
  C8, amended. With a positive stopping time, a driver whose current commands return,
  and a monotonic clock that reaches the stopping time, the loop ends for every large
  enough fuel, and it ends through its check. The elapsed time read at the start of the
  last pass lies in \<open>[time_stop, time_stop + L)\<close>, where \<open>L\<close> bounds the latency of a
  driver call. The loop is left one driver call later: its wall-clock duration lies in
  \<open>[time_stop, time_stop + 2 * L)\<close>.
\<close>
theorem loop_duration:
  fixes m :: "'d Model" and clock :: "nat \<Rightarrow> real"
  defines "t0 \<equiv> perf_counter clock m"
  assumes pos: "0 < time_stop m"
    and ok: "\<forall>u d. fst (drv_set_current drv u d) = None"
    and mono: "\<forall>i. clock i \<le> clock (Suc i)"
    and lat: "\<forall>i. clock (Suc i) - clock i \<le> L"
    and reach: "\<exists>k. time_stop m \<le> clock k - t0"
  shows "\<exists>N. \<forall>n \<ge> N.
           fst (while_loop n drv clock t0 0 m) = Finished
           \<and> time_stop m \<le> last (time (snd (while_loop n drv clock t0 0 m)))
           \<and> last (time (snd (while_loop n drv clock t0 0 m))) < time_stop m + L
           \<and> time_stop m \<le> perf_counter clock (snd (while_loop n drv clock t0 0 m)) - t0
           \<and> perf_counter clock (snd (while_loop n drv clock t0 0 m)) - t0 < time_stop m + 2 * L"
proof -
  define c where "c = length (calls m)"
  have t0: "t0 = clock c" by (simp add: t0_def c_def perf_counter_def)
  have mono': "clock i \<le> clock j" if "i \<le> j" for i j
    using that mono by (induction j) (auto simp: le_Suc_eq intro: order_trans)
  define P where "P k \<longleftrightarrow> c \<le> k \<and> time_stop m \<le> clock k - t0" for k
  from reach obtain k0 where k0: "time_stop m \<le> clock k0 - t0" by blast
  have "c \<le> k0"
  proof (rule ccontr)
    assume "\<not> c \<le> k0"
    then have "clock k0 \<le> clock c" by (intro mono') simp
    with k0 pos show False by (simp add: t0)
  qed
  with k0 have "P k0" by (simp add: P_def)
  define k where "k = (LEAST k. P k)"
  have Pk: "P k" unfolding k_def using \<open>P k0\<close> by (rule LeastI)
  have least: "\<not> P i" if "i < k" for i
    using that unfolding k_def by (rule not_less_Least)
  have ck: "c < k"
  proof (rule ccontr)
    assume "\<not> c < k"
    with Pk have "k = c" by (simp add: P_def)
    with Pk pos show False by (simp add: P_def t0)
  qed
  have below: "\<forall>i. length (calls m) \<le> i \<and> i < k \<longrightarrow> clock i - t0 < time_stop m"
  proof (intro allI impI)
    fix i assume i: "length (calls m) \<le> i \<and> i < k"
    then have "\<not> P i" by (intro least) simp
    with i show "clock i - t0 < time_stop m" by (simp add: P_def c_def not_le)
  qed
  have run: "fst (while_loop n drv clock t0 0 m) = Finished
        \<and> length (calls (snd (while_loop n drv clock t0 0 m))) = Suc k
        \<and> time (snd (while_loop n drv clock t0 0 m)) \<noteq> []
        \<and> last (time (snd (while_loop n drv clock t0 0 m))) = clock k - t0"
    if "k - c < n" for n
    using pos Pk below that
    by (intro while_loop_reaches [OF ok]) (simp_all add: P_def c_def)
  obtain j where j: "k = Suc j" using ck by (cases k) simp_all
  have "c \<le> j" using ck j by simp
  with least [of j] j have prev: "clock j - t0 < time_stop m" by (simp add: P_def not_le)
  have up: "clock k - t0 < time_stop m + L"
    using prev lat [rule_format, of j] by (simp add: j)
  have up2: "clock (Suc k) - t0 < time_stop m + 2 * L"
    using up lat [rule_format, of k] by simp
  have lo: "time_stop m \<le> clock k - t0" using Pk by (simp add: P_def)
  have lo2: "time_stop m \<le> clock (Suc k) - t0"
    using lo mono [rule_format, of k] by simp
  show ?thesis
  proof (intro exI [of _ "Suc (k - c)"] allI impI)
    fix n assume "Suc (k - c) \<le> n"
    then have "k - c < n" by simp
    from run [OF this] lo up lo2 up2
    show "fst (while_loop n drv clock t0 0 m) = Finished
           \<and> time_stop m \<le> last (time (snd (while_loop n drv clock t0 0 m)))
           \<and> last (time (snd (while_loop n drv clock t0 0 m))) < time_stop m + L
           \<and> time_stop m \<le> perf_counter clock (snd (while_loop n drv clock t0 0 m)) - t0
           \<and> perf_counter clock (snd (while_loop n drv clock t0 0 m)) - t0 < time_stop m + 2 * L"
      by (simp add: perf_counter_def)
  qed
qed

lemma brief_run:
  "while_loop 2 (mock reliable) real 3 0 (bench reliable (1 / 2)) =
     (Finished,
      \<lparr>device = (5, 0, 0, 270),
       calls = [SetDegrees, SetCurrentLimit 200, Enable, SetCurrent 270, SetCurrent 270],
       kp = 3, kd = 3, initial_velocity = 0, q_def = 90, time_stop = 1 / 2,
       state = [(0, 0, 270, 270), (0, 0, 270, 270)], error = [90, 90], time = [0, 1]\<rparr>)"
  by (simp add: numeral_2_eq_2 bench_reliable run_unfold reliable_def)

text \<open>
  C8, as stated, fails in its upper bound. On the mock actuator, with a clock on which
  every driver call takes one second and a stopping time of half a second, the loop
  starts at clock value 3, reads the elapsed times 0 and 1, and is left at clock value 5:
  the duration 2 is not below \<open>time_stop + max_tick_latency = 1/2 + 1\<close>.
\<close>
theorem loop_overruns_one_latency:
  "perf_counter real (bench reliable (1 / 2)) = 3
   \<and> time_stop (bench reliable (1 / 2)) = 1 / 2
   \<and> fst (while_loop 2 (mock reliable) real 3 0 (bench reliable (1 / 2))) = Finished
   \<and> perf_counter real (snd (while_loop 2 (mock reliable) real 3 0 (bench reliable (1 / 2)))) - 3 = 2
   \<and> \<not> (2 :: real) < 1 / 2 + 1"
  by (simp add: brief_run) (simp add: bench_reliable perf_counter_def)

text \<open>The same run, within the amended bounds.\<close>
theorem loop_duration_witness:
  "0 < time_stop (bench reliable (1 / 2))
   \<and> (\<forall>u d. fst (drv_set_current (mock reliable) u d) = None)
   \<and> (\<forall>i. real i \<le> real (Suc i))
   \<and> (\<forall>i. real (Suc i) - real i \<le> 1)
   \<and> (\<exists>k. time_stop (bench reliable (1 / 2)) \<le> real k - perf_counter real (bench reliable (1 / 2)))
   \<and> (\<exists>N. fst (while_loop N (mock reliable) real 3 0 (bench reliable (1 / 2))) = Finished
         \<and> 1 / 2 \<le> last (time (snd (while_loop N (mock reliable) real 3 0 (bench reliable (1 / 2)))))
         \<and> last (time (snd (while_loop N (mock reliable) real 3 0 (bench reliable (1 / 2))))) < 1 / 2 + 1
         \<and> 1 / 2 \<le> perf_counter real (snd (while_loop N (mock reliable) real 3 0 (bench reliable (1 / 2)))) - 3
         \<and> perf_counter real (snd (while_loop N (mock reliable) real 3 0 (bench reliable (1 / 2)))) - 3 < 1 / 2 + 2 * 1)"
proof -
  have h1: "0 < time_stop (bench reliable (1 / 2))" by (simp add: bench_reliable)
  have h2: "\<forall>u d. fst (drv_set_current (mock reliable) u d) = None"
    by (simp add: mock_def reliable_def)
  have h3: "\<forall>i. real i \<le> real (Suc i)" by simp
  have h4: "\<forall>i. real (Suc i) - real i \<le> 1" by simp
  have "time_stop (bench reliable (1 / 2)) \<le> real 4 - perf_counter real (bench reliable (1 / 2))"
    by (simp add: bench_reliable perf_counter_def)
  then have h5: "\<exists>k. time_stop (bench reliable (1 / 2)) \<le> real k - perf_counter real (bench reliable (1 / 2))" ..
  have t0: "perf_counter real (bench reliable (1 / 2)) = 3" "time_stop (bench reliable (1 / 2)) = 1 / 2"
    by (simp_all add: bench_reliable perf_counter_def)
  from loop_duration [OF h1 h2 h3 h4 h5] obtain N where
    "\<forall>n \<ge> N. fst (while_loop n (mock reliable) real 3 0 (bench reliable (1 / 2))) = Finished
      \<and> 1 / 2 \<le> last (time (snd (while_loop n (mock reliable) real 3 0 (bench reliable (1 / 2)))))
      \<and> last (time (snd (while_loop n (mock reliable) real 3 0 (bench reliable (1 / 2))))) < 1 / 2 + 1
      \<and> 1 / 2 \<le> perf_counter real (snd (while_loop n (mock reliable) real 3 0 (bench reliable (1 / 2)))) - 3
      \<and> perf_counter real (snd (while_loop n (mock reliable) real 3 0 (bench reliable (1 / 2)))) - 3 < 1 / 2 + 2 * 1"
    unfolding t0 by blast
  then have "fst (while_loop N (mock reliable) real 3 0 (bench reliable (1 / 2))) = Finished
      \<and> 1 / 2 \<le> last (time (snd (while_loop N (mock reliable) real 3 0 (bench reliable (1 / 2)))))
      \<and> last (time (snd (while_loop N (mock reliable) real 3 0 (bench reliable (1 / 2))))) < 1 / 2 + 1
      \<and> 1 / 2 \<le> perf_counter real (snd (while_loop N (mock reliable) real 3 0 (bench reliable (1 / 2)))) - 3
      \<and> perf_counter real (snd (while_loop N (mock reliable) real 3 0 (bench reliable (1 / 2)))) - 3 < 1 / 2 + 2 * 1"
    by blast
  with h1 h2 h3 h4 h5 show ?thesis by blast
qed

lemma while_loop_calls:
  "\<exists>us. calls (snd (while_loop n drv clock t0 t m)) = calls m @ map SetCurrent us"
proof (induction n arbitrary: t m)
  case 0
  have "calls (snd (while_loop 0 drv clock t0 t m)) = calls m @ map SetCurrent []" by simp
  then show ?case by (rule exI)
next
  case (Suc n)
  show ?case
  proof (cases "t < time_stop m")
    case False
    have "calls m = calls m @ map SetCurrent []" by simp
    then show ?thesis unfolding while_loop_Finished [OF False] snd_conv by (rule exI)
  next
    case True
    define u where "u = kp m * (q_def m - fst (drv_state drv (device m)))
                + kd m * (initial_velocity m - fst (snd (drv_state drv (device m))))"
    have c: "calls (snd (tick drv clock t0 m)) = calls m @ [SetCurrent u]"
      by (simp add: u_def)
    show ?thesis
    proof (cases "fst (tick drv clock t0 m)")
      case (Inl x)
      have "calls m @ [SetCurrent u] = calls m @ map SetCurrent [u]" by simp
      then show ?thesis
        unfolding while_loop_Suc_Inl [OF True Inl] snd_conv c by (rule exI)
    next
      case (Inr t')
      from Suc.IH [of t' "snd (tick drv clock t0 m)"] obtain us where
        "calls (snd (while_loop n drv clock t0 t' (snd (tick drv clock t0 m)))) =
           calls (snd (tick drv clock t0 m)) @ map SetCurrent us" by blast
      then have "calls (snd (while_loop n drv clock t0 t' (snd (tick drv clock t0 m)))) =
           calls m @ map SetCurrent (u # us)"
        by (simp only: c append_assoc append_Cons append_Nil list.map)
      then show ?thesis
        unfolding while_loop_Suc_Inr [OF True Inr] by (rule exI)
    qed
  qed
qed

lemma except_block_calls:
  "calls (snd (except_block drv out m)) =
     calls m @ (if out = Raised KeyboardInterrupt then [SetCurrent 0] else [])"
  by (simp add: except_block_def split: outcome.splits exn.splits)

lemma finally_block_calls:
  "calls (snd (finally_block drv pending m)) =
     calls m @ [SetCurrent 0]
       @ (if fst (drv_set_current drv 0 (device m)) = None then [Disable] else [])"
  by (simp add: finally_block_def case_prod_beta split: option.splits)

lemma finally_block_raises:
  "fst (drv_set_current drv 0 (device m)) \<noteq> None \<Longrightarrow>
     fst (finally_block drv pending m) = fst (drv_set_current drv 0 (device m))"
  by (auto simp add: finally_block_def case_prod_beta split: option.splits)

lemma simulate_Some:
  assumes "fst (while_loop n drv clock (perf_counter clock m) 0 m) \<noteq> OutOfFuel"
  shows "simulate n drv clock m =
     Some (finally_block drv
        (fst (except_block drv (fst (while_loop n drv clock (perf_counter clock m) 0 m))
               (snd (while_loop n drv clock (perf_counter clock m) 0 m))))
        (snd (except_block drv (fst (while_loop n drv clock (perf_counter clock m) 0 m))
               (snd (while_loop n drv clock (perf_counter clock m) 0 m)))))"
  using assms
  by (simp add: simulate_def Let_def case_prod_beta split: outcome.splits)

lemma simulate_None:
  assumes "fst (while_loop n drv clock (perf_counter clock m) 0 m) = OutOfFuel"
  shows "simulate n drv clock m = None"
  using assms
  by (simp add: simulate_def Let_def case_prod_beta split: outcome.splits)



lemma bench_script:
  "map_of table 0 = None \<Longrightarrow> map_of table 1 = None \<Longrightarrow> map_of table 2 = None \<Longrightarrow>
   bench (script table) stop =
     \<lparr>device = (3, 0, 0, 0), calls = [SetDegrees, SetCurrentLimit 200, Enable],
      kp = 3, kd = 3, initial_velocity = 0, q_def = 90, time_stop = stop,
      state = [], error = [], time = []\<rparr>"
  by (rule bench_eq) (simp_all add: script_def)

lemma bench_raises_from:
  "2 < k \<Longrightarrow> bench (raises_from k x) stop =
     \<lparr>device = (3, 0, 0, 0), calls = [SetDegrees, SetCurrentLimit 200, Enable],
      kp = 3, kd = 3, initial_velocity = 0, q_def = 90, time_stop = stop,
      state = [], error = [], time = []\<rparr>"
  by (rule bench_eq) (simp_all add: raises_from_def)

lemma interrupted_loop:
  "while_loop 2 (mock (script [(4, KeyboardInterrupt)])) real 3 0
      (bench (script [(4, KeyboardInterrupt)]) 10) =
     (Raised KeyboardInterrupt,
       \<lparr>device = (5, 0, 0, 270),
        calls = [SetDegrees, SetCurrentLimit 200, Enable, SetCurrent 270, SetCurrent 270],
        kp = 3, kd = 3, initial_velocity = 0, q_def = 90, time_stop = 10,
        state = [(0, 0, 270, 270)], error = [90], time = [0]\<rparr>)"
  by (simp add: numeral_2_eq_2 bench_script run_unfold script_def)

lemma interrupted_run:
  "simulate 2 (mock (script [(4, KeyboardInterrupt)])) real
      (bench (script [(4, KeyboardInterrupt)]) 10) =
     Some (None,
       \<lparr>device = (8, 0, 0, 0),
        calls = [SetDegrees, SetCurrentLimit 200, Enable, SetCurrent 270, SetCurrent 270,
                 SetCurrent 0, SetCurrent 0, Disable],
        kp = 3, kd = 3, initial_velocity = 0, q_def = 90, time_stop = 10,
        state = [(0, 0, 270, 270)], error = [90], time = [0]\<rparr>)"
  by (simp add: numeral_2_eq_2 bench_script run_unfold script_def get_params_unfold)

lemma handler_fails_loop:
  "while_loop 2 (mock (script [(4, KeyboardInterrupt), (5, DeviceError)])) real 3 0
      (bench (script [(4, KeyboardInterrupt), (5, DeviceError)]) 10) =
     (Raised KeyboardInterrupt,
       \<lparr>device = (5, 0, 0, 270),
        calls = [SetDegrees, SetCurrentLimit 200, Enable, SetCurrent 270, SetCurrent 270],
        kp = 3, kd = 3, initial_velocity = 0, q_def = 90, time_stop = 10,
        state = [(0, 0, 270, 270)], error = [90], time = [0]\<rparr>)"
  by (simp add: numeral_2_eq_2 bench_script run_unfold script_def)

lemma handler_fails_run:
  "simulate 2 (mock (script [(4, KeyboardInterrupt), (5, DeviceError)])) real
      (bench (script [(4, KeyboardInterrupt), (5, DeviceError)]) 10) =
     Some (Some DeviceError,
       \<lparr>device = (8, 0, 0, 0),
        calls = [SetDegrees, SetCurrentLimit 200, Enable, SetCurrent 270, SetCurrent 270,
                 SetCurrent 0, SetCurrent 0, Disable],
        kp = 3, kd = 3, initial_velocity = 0, q_def = 90, time_stop = 10,
        state = [(0, 0, 270, 270)], error = [90], time = [0]\<rparr>)"
  by (simp add: numeral_2_eq_2 bench_script run_unfold script_def get_params_unfold)

lemma dead_bus_loop:
  "while_loop 2 (mock (raises_from 3 DeviceError)) real 3 0 (bench (raises_from 3 DeviceError) 10) =
     (Raised DeviceError,
       \<lparr>device = (4, 0, 0, 0),
        calls = [SetDegrees, SetCurrentLimit 200, Enable, SetCurrent 270],
        kp = 3, kd = 3, initial_velocity = 0, q_def = 90, time_stop = 10,
        state = [], error = [], time = []\<rparr>)"
  by (simp add: numeral_2_eq_2 bench_raises_from run_unfold raises_from_def)

lemma dead_bus_run:
  "simulate 2 (mock (raises_from 3 DeviceError)) real (bench (raises_from 3 DeviceError) 10) =
     Some (Some DeviceError,
       \<lparr>device = (5, 0, 0, 0),
        calls = [SetDegrees, SetCurrentLimit 200, Enable, SetCurrent 270, SetCurrent 0],
        kp = 3, kd = 3, initial_velocity = 0, q_def = 90, time_stop = 10,
        state = [], error = [], time = []\<rparr>)"
  by (simp add: numeral_2_eq_2 bench_raises_from run_unfold raises_from_def)







lemma init_calls:
  fixes drv :: "'d GyemsDRC" and dp :: DeviceParams and d :: 'd
  defines "r1 \<equiv> drv_set_degrees drv d"
  defines "r2 \<equiv> drv_current_limit drv (current_limit dp) (snd r1)"
  defines "r3 \<equiv> drv_enable drv (snd r2)"
  shows "fst r1 \<noteq> None \<Longrightarrow> fst (init drv dp d) = fst r1 \<and> calls (snd (init drv dp d)) = [SetDegrees]"
    and "fst r1 = None \<Longrightarrow> fst r2 \<noteq> None \<Longrightarrow>
          fst (init drv dp d) = fst r2
          \<and> calls (snd (init drv dp d)) = [SetDegrees, SetCurrentLimit (current_limit dp)]"
    and "fst r1 = None \<Longrightarrow> fst r2 = None \<Longrightarrow>
          fst (init drv dp d) = fst r3
          \<and> calls (snd (init drv dp d)) = [SetDegrees, SetCurrentLimit (current_limit dp), Enable]
          \<and> device (snd (init drv dp d)) = snd r3"
  unfolding r1_def r2_def r3_def
  by (auto simp add: init_def setup_model_def case_prod_beta split: option.splits)

text \<open>
  C5, amended. The constructor checks no field of the configuration; it fails exactly when
  one of the three driver calls of \<open>setup\<close> raises, with that exception. When
  \<open>set_degrees\<close> raises, nothing else is called; when the assignment of \<open>current_limit\<close>
  raises, \<open>enable\<close> is not called; otherwise \<open>enable\<close> is called and its outcome is the
  constructor's. No call of a failed construction is a current command or \<open>disable\<close>.
  If the three calls return, construction succeeds whatever the configuration; with
  \<open>time_stop \<le> 0\<close> the loop then makes no pass, and \<open>simulate\<close> still sends the zero
  command and, if it returns, calls \<open>disable\<close>.
\<close>
theorem construction_checks_nothing:
  fixes drv :: "'d GyemsDRC" and dp :: DeviceParams and d :: 'd
  defines "r1 \<equiv> drv_set_degrees drv d"
  defines "r2 \<equiv> drv_current_limit drv (current_limit dp) (snd r1)"
  defines "r3 \<equiv> drv_enable drv (snd r2)"
  shows
    "(fst r1 \<noteq> None \<longrightarrow>
        fst (init drv dp d) = fst r1 \<and> calls (snd (init drv dp d)) = [SetDegrees])
     \<and> (fst r1 = None \<and> fst r2 \<noteq> None \<longrightarrow>
        fst (init drv dp d) = fst r2
        \<and> calls (snd (init drv dp d)) = [SetDegrees, SetCurrentLimit (current_limit dp)])
     \<and> (fst r1 = None \<and> fst r2 = None \<longrightarrow>
        fst (init drv dp d) = fst r3
        \<and> calls (snd (init drv dp d)) = [SetDegrees, SetCurrentLimit (current_limit dp), Enable])
     \<and> (fst r1 = None \<and> fst r2 = None \<and> fst r3 = None \<and> DeviceParams.time_stop dp \<le> 0 \<longrightarrow>
        while_loop n drv clock t0 0 (snd (init drv dp d)) = (Finished, snd (init drv dp d))
        \<and> (\<exists>r m'. simulate n drv clock (snd (init drv dp d)) = Some (r, m')
              \<and> calls m' = [SetDegrees, SetCurrentLimit (current_limit dp), Enable, SetCurrent 0]
                   @ (if fst (drv_set_current drv 0 (snd r3)) = None then [Disable] else [])))"
proof (intro conjI impI)
  assume "fst r1 \<noteq> None"
  then show "fst (init drv dp d) = fst r1" "calls (snd (init drv dp d)) = [SetDegrees]"
    using init_calls(1) [of drv d dp] by (simp_all add: r1_def)
next
  assume "fst r1 = None \<and> fst r2 \<noteq> None"
  then show "fst (init drv dp d) = fst r2"
    "calls (snd (init drv dp d)) = [SetDegrees, SetCurrentLimit (current_limit dp)]"
    using init_calls(2) [of drv d dp] by (simp_all add: r1_def r2_def)
next
  assume "fst r1 = None \<and> fst r2 = None"
  then show "fst (init drv dp d) = fst r3"
    "calls (snd (init drv dp d)) = [SetDegrees, SetCurrentLimit (current_limit dp), Enable]"
    using init_calls(3) [of drv d dp] by (simp_all add: r1_def r2_def r3_def)
next
  assume a: "fst r1 = None \<and> fst r2 = None \<and> fst r3 = None \<and> DeviceParams.time_stop dp \<le> 0"
  then have i: "calls (snd (init drv dp d)) = [SetDegrees, SetCurrentLimit (current_limit dp), Enable]"
    "device (snd (init drv dp d)) = snd r3"
    using init_calls(3) [of drv d dp] by (simp_all add: r1_def r2_def r3_def)
  from a have stop: "\<not> 0 < time_stop (snd (init drv dp d))" by simp
  show w: "while_loop n drv clock t0 0 (snd (init drv dp d)) = (Finished, snd (init drv dp d))" for t0
    by (rule while_loop_Finished [OF stop])
  have "simulate n drv clock (snd (init drv dp d)) =
      Some (finally_block drv None (snd (init drv dp d)))"
    by (simp add: simulate_def w except_block_def)
  moreover have "calls (snd (finally_block drv None (snd (init drv dp d)))) =
      [SetDegrees, SetCurrentLimit (current_limit dp), Enable, SetCurrent 0]
        @ (if fst (drv_set_current drv 0 (snd r3)) = None then [Disable] else [])"
    by (simp add: finally_block_calls i)
  ultimately show "\<exists>r m'. simulate n drv clock (snd (init drv dp d)) = Some (r, m')
      \<and> calls m' = [SetDegrees, SetCurrentLimit (current_limit dp), Enable, SetCurrent 0]
           @ (if fst (drv_set_current drv 0 (snd r3)) = None then [Disable] else [])"
    by (metis prod.collapse)
qed

text \<open>
  C5, as stated, fails: with \<open>time_stop = -1\<close> construction raises nothing and enables the
  actuator, and \<open>simulate\<close> runs the shutdown sequence (and then fails in \<open>plot\<close>, on the
  empty recording).
\<close>
theorem nonpositive_time_stop_accepted:
  "DeviceParams.time_stop (dev_param\<lparr>DeviceParams.time_stop := - 1\<rparr>) = - 1
   \<and> init (mock reliable) (dev_param\<lparr>DeviceParams.time_stop := - 1\<rparr>) (0, 0, 0, 0) =
       (None, bench reliable (- 1))
   \<and> calls (bench reliable (- 1)) = [SetDegrees, SetCurrentLimit 200, Enable]
   \<and> observed (simulate 0 (mock reliable) real (bench reliable (- 1))) =
       Some (Some IndexError, [SetDegrees, SetCurrentLimit 200, Enable, SetCurrent 0, Disable])"
proof -
  have "fst (init (mock reliable) (dev_param\<lparr>DeviceParams.time_stop := - 1\<rparr>) (0, 0, 0, 0)) = None"
    by (simp add: init_def setup_model_def invoke_def mock_def reliable_def)
  then have "init (mock reliable) (dev_param\<lparr>DeviceParams.time_stop := - 1\<rparr>) (0, 0, 0, 0) =
       (None, bench reliable (- 1))"
    by (simp add: bench_def prod_eq_iff)
  then show ?thesis
    by (simp add: observed_def) (simp add: bench_reliable run_unfold reliable_def)
qed


text \<open>
  Drivers that raise on their first, second and third call, and the reliable one with
  \<open>time_stop = -1\<close>.
\<close>
theorem construction_checks_nothing_witness:
  "(fst (drv_set_degrees (mock (script [(0, DeviceError)])) (0, 0, 0, 0)) = Some DeviceError
    \<and> fst (init (mock (script [(0, DeviceError)])) dev_param (0, 0, 0, 0)) = Some DeviceError
    \<and> calls (snd (init (mock (script [(0, DeviceError)])) dev_param (0, 0, 0, 0))) = [SetDegrees])
   \<and> (fst (drv_set_degrees (mock (script [(1, DeviceError)])) (0, 0, 0, 0)) = None
      \<and> fst (drv_current_limit (mock (script [(1, DeviceError)])) 200 (1, 0, 0, 0)) = Some DeviceError
      \<and> fst (init (mock (script [(1, DeviceError)])) dev_param (0, 0, 0, 0)) = Some DeviceError
      \<and> calls (snd (init (mock (script [(1, DeviceError)])) dev_param (0, 0, 0, 0))) =
           [SetDegrees, SetCurrentLimit 200])
   \<and> (fst (drv_set_degrees (mock (script [(2, DeviceError)])) (0, 0, 0, 0)) = None
      \<and> fst (drv_current_limit (mock (script [(2, DeviceError)])) 200 (1, 0, 0, 0)) = None
      \<and> fst (drv_enable (mock (script [(2, DeviceError)])) (2, 0, 0, 0)) = Some DeviceError
      \<and> fst (init (mock (script [(2, DeviceError)])) dev_param (0, 0, 0, 0)) = Some DeviceError
      \<and> calls (snd (init (mock (script [(2, DeviceError)])) dev_param (0, 0, 0, 0))) =
           [SetDegrees, SetCurrentLimit 200, Enable])
   \<and> (fst (drv_set_degrees (mock reliable) (0, 0, 0, 0)) = None
      \<and> fst (drv_current_limit (mock reliable) 200 (1, 0, 0, 0)) = None
      \<and> fst (drv_enable (mock reliable) (2, 0, 0, 0)) = None
      \<and> fst (drv_set_current (mock reliable) 0 (3, 0, 0, 0)) = None
      \<and> DeviceParams.time_stop (dev_param\<lparr>DeviceParams.time_stop := - 1\<rparr>) \<le> 0
      \<and> fst (init (mock reliable) (dev_param\<lparr>DeviceParams.time_stop := - 1\<rparr>) (0, 0, 0, 0)) = None
      \<and> while_loop 5 (mock reliable) real 3 0 (bench reliable (- 1)) = (Finished, bench reliable (- 1))
      \<and> (\<exists>r m'. simulate 5 (mock reliable) real (bench reliable (- 1)) = Some (r, m')
            \<and> calls m' = [SetDegrees, SetCurrentLimit 200, Enable, SetCurrent 0, Disable]))"
proof -
  have a: "fst (drv_set_degrees (mock (script [(0, DeviceError)])) (0, 0, 0, 0)) = Some DeviceError"
    by (simp add: mock_def script_def)
  have b: "fst (drv_set_degrees (mock (script [(1, DeviceError)])) (0, 0, 0, 0)) = None
      \<and> fst (drv_current_limit (mock (script [(1, DeviceError)])) 200 (1, 0, 0, 0)) = Some DeviceError"
    by (simp add: mock_def script_def)
  have c: "fst (drv_set_degrees (mock (script [(2, DeviceError)])) (0, 0, 0, 0)) = None
      \<and> fst (drv_current_limit (mock (script [(2, DeviceError)])) 200 (1, 0, 0, 0)) = None
      \<and> fst (drv_enable (mock (script [(2, DeviceError)])) (2, 0, 0, 0)) = Some DeviceError"
    by (simp add: mock_def script_def)
  have e: "fst (drv_set_degrees (mock reliable) (0, 0, 0, 0)) = None
      \<and> fst (drv_current_limit (mock reliable) 200 (1, 0, 0, 0)) = None
      \<and> fst (drv_enable (mock reliable) (2, 0, 0, 0)) = None
      \<and> fst (drv_set_current (mock reliable) 0 (3, 0, 0, 0)) = None
      \<and> DeviceParams.time_stop (dev_param\<lparr>DeviceParams.time_stop := - 1\<rparr>) \<le> 0"
    by (simp add: mock_def reliable_def)
  from a construction_checks_nothing
    [where drv = "mock (script [(0, DeviceError)])" and d = "(0, 0, 0, 0)" and dp = dev_param]
  have 1: "fst (init (mock (script [(0, DeviceError)])) dev_param (0, 0, 0, 0)) = Some DeviceError
    \<and> calls (snd (init (mock (script [(0, DeviceError)])) dev_param (0, 0, 0, 0))) = [SetDegrees]"
    by simp
  from b construction_checks_nothing
    [where drv = "mock (script [(1, DeviceError)])" and d = "(0, 0, 0, 0)" and dp = dev_param]
  have 2: "fst (init (mock (script [(1, DeviceError)])) dev_param (0, 0, 0, 0)) = Some DeviceError
      \<and> calls (snd (init (mock (script [(1, DeviceError)])) dev_param (0, 0, 0, 0))) =
           [SetDegrees, SetCurrentLimit 200]"
    by (simp add: mock_def script_def dev_param_def)
  from c construction_checks_nothing
    [where drv = "mock (script [(2, DeviceError)])" and d = "(0, 0, 0, 0)" and dp = dev_param]
  have 3: "fst (init (mock (script [(2, DeviceError)])) dev_param (0, 0, 0, 0)) = Some DeviceError
      \<and> calls (snd (init (mock (script [(2, DeviceError)])) dev_param (0, 0, 0, 0))) =
           [SetDegrees, SetCurrentLimit 200, Enable]"
    by (simp add: mock_def script_def dev_param_def)
  from e construction_checks_nothing
    [where drv = "mock reliable" and d = "(0, 0, 0, 0)"
       and dp = "dev_param\<lparr>DeviceParams.time_stop := - 1\<rparr>" and n = 5 and clock = real and ?t0.0 = 3]
  have 4: "fst (init (mock reliable) (dev_param\<lparr>DeviceParams.time_stop := - 1\<rparr>) (0, 0, 0, 0)) = None
      \<and> while_loop 5 (mock reliable) real 3 0 (bench reliable (- 1)) = (Finished, bench reliable (- 1))
      \<and> (\<exists>r m'. simulate 5 (mock reliable) real (bench reliable (- 1)) = Some (r, m')
            \<and> calls m' = [SetDegrees, SetCurrentLimit 200, Enable, SetCurrent 0, Disable])"
    by (simp add: mock_def reliable_def dev_param_def bench_def)
  from a b c e 1 2 3 4 show ?thesis by blast
qed

end
